theory Spec2Isabelle
  imports Main "HOL-Library.AList" "HOL-Library.Char_ord" "HOL-Library.List_Lexorder"
    "HOL-Library.Multiset"
begin

section \<open>Timestamps and the later-of rule\<close>

text \<open>
  A timestamp is the ISO-8601 string the API sends (\<open>committedDate\<close>, \<open>createdAt\<close>);
  an absent one is Python's \<open>None\<close>. Strings are compared as Python compares them,
  character by character (\<open>HOL-Library.List_Lexorder\<close> over \<open>HOL-Library.Char_ord\<close>).

  \<^verbatim>\<open>
  def later(ts1, ts2):
      if not ts1: return ts2
      if not ts2: return ts1
      return max(ts1, ts2)
  \<close>
  \<open>not ts\<close> holds of \<open>None\<close> and of the empty string.
\<close>

type_synonym timestamp = "string option"

fun falsy_ts :: "timestamp \<Rightarrow> bool" where
  "falsy_ts None = True"
| "falsy_ts (Some s) = (s = [])"

fun later :: "timestamp \<Rightarrow> timestamp \<Rightarrow> timestamp" where
  "later ts1 ts2 =
     (if falsy_ts ts1 then ts2
      else if falsy_ts ts2 then ts1
      else (case (ts1, ts2) of
              (Some a, Some b) \<Rightarrow> Some (max a b)
            | _ \<Rightarrow> None))"

text \<open>An optional timestamp: absent, or a non-empty string.\<close>

definition opt_timestamp :: "timestamp \<Rightarrow> bool" where
  "opt_timestamp t = (t \<noteq> Some [])"

section \<open>JSON values and the Python operations the code applies to them\<close>

text \<open>
  What \<open>response.json()\<close> returns. The queries of this program select no numeric field,
  so a response holds objects, arrays, strings, booleans and nulls; \<open>JNull\<close> is Python's
  \<open>None\<close>, and an object keeps its keys in order, as a Python dict does.
\<close>

datatype json = JNull | JBool bool | JStr string | JArr "json list" | JObj "(string \<times> json) list"

text \<open>
  The exceptions the code can meet. \<open>KeyboardInterrupt\<close> derives from \<open>BaseException\<close>
  only, so \<open>except Exception\<close> does not catch it. \<open>QueryFailed\<close> is the
  \<open>Exception\<close> that \<open>run_query\<close> raises itself on a failing status code.
  \<open>OffSchema\<close> is no Python exception: it marks a response in which the \<open>login\<close> of
  a member or the \<open>name\<close> of a repository or of a branch, which the API's schema declares
  \<open>String!\<close>, holds something else than a string. The three collectors of names keep
  these fields as strings and do not follow the interpreter on such a response. The
  activity feeds do: they keep a login and a timestamp as received.
\<close>

datatype exn =
    ConnectionError | Timeout | RequestException | JSONDecodeError
  | KeyError | TypeError | AttributeError | ValueError | OverflowError
  | QueryFailed int | KeyboardInterrupt | OffSchema

fun is_Exception :: "exn \<Rightarrow> bool" where
  "is_Exception KeyboardInterrupt = False"
| "is_Exception _ = True"

fun and_then :: "exn + 'a \<Rightarrow> ('a \<Rightarrow> exn + 'b) \<Rightarrow> exn + 'b" where
  "and_then (Inl e) f = Inl e"
| "and_then (Inr x) f = f x"

fun traverse :: "('a \<Rightarrow> exn + 'b) \<Rightarrow> 'a list \<Rightarrow> exn + 'b list" where
  "traverse f [] = Inr []"
| "traverse f (x # xs) =
     and_then (f x) (\<lambda>y. and_then (traverse f xs) (\<lambda>ys. Inr (y # ys)))"

text \<open>\<open>bool(x)\<close>: \<open>None\<close>, \<open>False\<close>, the empty string, list and dict are falsy.\<close>

fun truthy :: "json \<Rightarrow> bool" where
  "truthy JNull = False"
| "truthy (JBool b) = b"
| "truthy (JStr s) = (s \<noteq> [])"
| "truthy (JArr xs) = (xs \<noteq> [])"
| "truthy (JObj kvs) = (kvs \<noteq> [])"

text \<open>\<open>x[k]\<close> with a string key: only a dict can be subscripted by a string.\<close>

fun getitem :: "json \<Rightarrow> string \<Rightarrow> exn + json" where
  "getitem (JObj kvs) k = (case map_of kvs k of None \<Rightarrow> Inl KeyError | Some v \<Rightarrow> Inr v)"
| "getitem _ k = Inl TypeError"

text \<open>\<open>x.get(k, default)\<close>: only a dict has the method.\<close>

fun get_method :: "json \<Rightarrow> string \<Rightarrow> json \<Rightarrow> exn + json" where
  "get_method (JObj kvs) k d = Inr (case map_of kvs k of None \<Rightarrow> d | Some v \<Rightarrow> v)"
| "get_method _ k d = Inl AttributeError"

fun is_substring :: "string \<Rightarrow> string \<Rightarrow> bool" where
  "is_substring k [] = (k = [])"
| "is_substring k (c # cs) = (take (length k) (c # cs) = k \<or> is_substring k cs)"

text \<open>\<open>k in x\<close> with a string \<open>k\<close>: a key of a dict, an element of a list, a substring.\<close>

fun contains :: "string \<Rightarrow> json \<Rightarrow> exn + bool" where
  "contains k (JObj kvs) = Inr (map_of kvs k \<noteq> None)"
| "contains k (JArr xs) = Inr (JStr k \<in> set xs)"
| "contains k (JStr s) = Inr (is_substring k s)"
| "contains k _ = Inl TypeError"

text \<open>\<open>for x in v\<close>: the elements of a list, the keys of a dict, the characters of a string.\<close>

fun iterate :: "json \<Rightarrow> exn + json list" where
  "iterate (JArr xs) = Inr xs"
| "iterate (JObj kvs) = Inr (map (\<lambda>kv. JStr (fst kv)) kvs)"
| "iterate (JStr s) = Inr (map (\<lambda>c. JStr [c]) s)"
| "iterate _ = Inl TypeError"

fun str_of :: "json \<Rightarrow> exn + string" where
  "str_of (JStr s) = Inr s"
| "str_of _ = Inl OffSchema"

text \<open>
  \<open>a == b\<close> between two values of a response: values of unlike types are not equal,
  two lists are equal when they have the same length and equal elements, two dicts when
  they have the same number of keys and every key of the one is a key of the other with
  an equal value, in whatever order the keys come.
\<close>

fun py_eq :: "json \<Rightarrow> json \<Rightarrow> bool"
  and py_eq_list :: "json list \<Rightarrow> json list \<Rightarrow> bool"
  and py_eq_items :: "(string \<times> json) list \<Rightarrow> (string \<times> json) list \<Rightarrow> bool" where
  "py_eq JNull JNull = True"
| "py_eq (JBool a) (JBool b) = (a = b)"
| "py_eq (JStr a) (JStr b) = (a = b)"
| "py_eq (JArr xs) (JArr ys) = py_eq_list xs ys"
| "py_eq (JObj kvs) (JObj kws) = (length kvs = length kws \<and> py_eq_items kvs kws)"
| "py_eq _ _ = False"
| "py_eq_list [] [] = True"
| "py_eq_list (x # xs) (y # ys) = (py_eq x y \<and> py_eq_list xs ys)"
| "py_eq_list _ _ = False"
| "py_eq_items [] kws = True"
| "py_eq_items ((k, v) # kvs) kws =
     ((case map_of kws k of None \<Rightarrow> False | Some w \<Rightarrow> py_eq v w) \<and> py_eq_items kvs kws)"

text \<open>
  \<open>a > b\<close>: two strings compare character by character, two booleans as the integers 0
  and 1, two lists by the first pair of elements that are not equal, or by their lengths
  when there is no such pair. \<open>None\<close>, dicts and values of unlike types are not ordered:
  the comparison raises \<open>TypeError\<close>.
\<close>

fun py_gt :: "json \<Rightarrow> json \<Rightarrow> exn + bool"
  and py_gt_list :: "json list \<Rightarrow> json list \<Rightarrow> exn + bool" where
  "py_gt (JStr a) (JStr b) = Inr (b < a)"
| "py_gt (JBool a) (JBool b) = Inr (a \<and> \<not> b)"
| "py_gt (JArr xs) (JArr ys) = py_gt_list xs ys"
| "py_gt _ _ = Inl TypeError"
| "py_gt_list [] ys = Inr False"
| "py_gt_list (x # xs) [] = Inr True"
| "py_gt_list (x # xs) (y # ys) = (if py_eq x y then py_gt_list xs ys else py_gt x y)"

text \<open>\<open>max(a, b)\<close> keeps \<open>a\<close> unless \<open>b > a\<close>.\<close>

definition py_max :: "json \<Rightarrow> json \<Rightarrow> exn + json" where
  "py_max a b = and_then (py_gt b a) (\<lambda>greater. Inr (if greater then b else a))"

text \<open>A key of a dict has to be hashable, which a list and a dict are not.\<close>

fun hashable :: "json \<Rightarrow> bool" where
  "hashable (JArr xs) = False"
| "hashable (JObj kvs) = False"
| "hashable _ = True"

section \<open>Transport: run_query\<close>

text \<open>
  The program talks to one endpoint through \<open>SESSION.post\<close> and waits with
  \<open>time.sleep\<close>. Both are effects on the world outside; the model records them in a
  trace, and the server is any function from what the program has done so far and the
  request it sends now to what \<open>SESSION.post\<close> does: raise, or return a response with a
  status code and a body (\<open>None\<close> when the body is not JSON). The text of a GraphQL
  query is abstracted to its name. Printing is left out.
\<close>

datatype query =
  MembersQuery | ReposQuery | BranchesQuery | CommitsQuery | IssuesQuery | PullRequestsQuery

datatype request = Request query "(string \<times> json) list"

datatype event = Posted request | Slept int

datatype outcome = Raises exn | Response int "json option"

type_synonym server = "event list \<Rightarrow> request \<Rightarrow> outcome"

text \<open>How the body of the \<open>try\<close> ends when it does not raise.\<close>

datatype flow = Return json | Continue

text \<open>
  \<^verbatim>\<open>
  response = SESSION.post(GRAPHQL_URL, json={"query": query, "variables": variables}, ...)
  if response.status_code == 200:
      return response.json()["data"]
  elif response.status_code == 403:
      time.sleep(60)
      continue
  else:
      if attempt < max_attempts - 1:
          time.sleep(5 * (attempt + 1))
          continue
      else:
          raise Exception(...)
  \<close>
\<close>

definition try_body ::
  "server \<Rightarrow> request \<Rightarrow> int \<Rightarrow> int \<Rightarrow> event list \<Rightarrow> (exn + flow) \<times> event list" where
  "try_body srv req max_attempts attempt tr =
     (let tr1 = tr @ [Posted req] in
      case srv tr req of
        Raises e \<Rightarrow> (Inl e, tr1)
      | Response status_code body \<Rightarrow>
          if status_code = 200 then
            (case body of
               None \<Rightarrow> (Inl JSONDecodeError, tr1)
             | Some j \<Rightarrow>
                 (case getitem j ''data'' of
                    Inl e \<Rightarrow> (Inl e, tr1)
                  | Inr d \<Rightarrow> (Inr (Return d), tr1)))
          else if status_code = 403 then (Inr Continue, tr1 @ [Slept 60])
          else if attempt < max_attempts - 1
            then (Inr Continue, tr1 @ [Slept (5 * (attempt + 1))])
          else (Inl (QueryFailed status_code), tr1))"

text \<open>
  The loop \<open>for attempt in range(max_attempts)\<close> with its two handlers,
  \<open>except (ConnectionError, Timeout)\<close> and \<open>except Exception\<close>, and the
  \<open>return None\<close> after the loop. A \<open>continue\<close>, and a handler that does not return,
  go on with the next \<open>attempt\<close>.
\<close>

function run_query_from ::
  "server \<Rightarrow> request \<Rightarrow> int \<Rightarrow> int \<Rightarrow> event list \<Rightarrow> (exn + json) \<times> event list" where
  "run_query_from srv req max_attempts attempt tr =
     (if attempt < max_attempts then
        (case try_body srv req max_attempts attempt tr of
           (Inr (Return d), tr1) \<Rightarrow> (Inr d, tr1)
         | (Inr Continue, tr1) \<Rightarrow> run_query_from srv req max_attempts (attempt + 1) tr1
         | (Inl e, tr1) \<Rightarrow>
             if e = ConnectionError \<or> e = Timeout then
               (if attempt < max_attempts - 1
                then run_query_from srv req max_attempts (attempt + 1)
                       (tr1 @ [Slept (5 * 2 ^ nat attempt)])
                else (Inr JNull, tr1))
             else if is_Exception e then
               (if attempt < max_attempts - 1
                then run_query_from srv req max_attempts (attempt + 1)
                       (tr1 @ [Slept (5 * (attempt + 1))])
                else (Inr JNull, tr1))
             else (Inl e, tr1))
      else (Inr JNull, tr))"
  by pat_completeness auto
termination
  by (relation "measure (\<lambda>(srv, req, max_attempts, attempt, tr). nat (max_attempts - attempt))")
     auto

definition run_query ::
  "server \<Rightarrow> request \<Rightarrow> int \<Rightarrow> event list \<Rightarrow> (exn + json) \<times> event list" where
  "run_query srv req max_attempts tr = run_query_from srv req max_attempts 0 tr"

declare run_query_from.simps [simp del]

text \<open>
  What \<open>run_query\<close> counts as a failure of one attempt: \<open>SESSION.post\<close> raises an
  \<open>Exception\<close>, the status code is not 200, the body is not JSON, or the body has no
  \<open>data\<close> to read.
\<close>

fun failing :: "outcome \<Rightarrow> bool" where
  "failing (Raises e) = is_Exception e"
| "failing (Response status_code body) =
     (status_code \<noteq> 200 \<or>
      (case body of
         None \<Rightarrow> True
       | Some j \<Rightarrow> (case getitem j ''data'' of Inl e \<Rightarrow> True | Inr d \<Rightarrow> False)))"

text \<open>The trace after \<open>k\<close> attempts that each met a 403: a post and a sleep of 60 seconds each.\<close>

fun cooled :: "request \<Rightarrow> event list \<Rightarrow> nat \<Rightarrow> event list" where
  "cooled req tr 0 = tr"
| "cooled req tr (Suc k) = cooled req tr k @ [Posted req, Slept 60]"

text \<open>
  A server that plays a script: the n-th call of \<open>SESSION.post\<close> gets the n-th outcome,
  whatever the request, and a connection error once the script is over.
\<close>

fun posts :: "event list \<Rightarrow> nat" where
  "posts [] = 0"
| "posts (Posted r # es) = Suc (posts es)"
| "posts (Slept n # es) = posts es"

definition scripted :: "outcome list \<Rightarrow> server" where
  "scripted os tr req =
     (case drop (posts tr) os of [] \<Rightarrow> Raises ConnectionError | oc # rest \<Rightarrow> oc)"

section \<open>Pagination\<close>

text \<open>
  The six collectors are the same loop around \<open>run_query\<close>:
  \<^verbatim>\<open>
  acc, cursor = <empty>, None
  while True:
      result = run_query(query, variables)      # variables hold the cursor
      if <result missing>: break
      <take the page's items into acc>
      if not <pageInfo>["hasNextPage"]: break
      cursor = <pageInfo>["endCursor"]
      time.sleep(RATE_DELAY)
  return acc
  \<close>
  \<open>paginate\<close> is that loop; what a collector does with one result is its page function,
  which ends in \<open>Stop\<close> (the first \<open>break\<close>), \<open>Last\<close> (the second \<open>break\<close>, with the
  accumulator after the page) or \<open>More\<close> (the accumulator and the next cursor), or
  raises. The server may announce a next page forever, so the loop need not end: the
  result is an option, \<open>None\<close> when the loop runs forever. \<open>max_attempts\<close> is left at its
  default 3 by every caller.
\<close>

datatype 'a step = Stop | Last 'a | More 'a json

definition RATE_DELAY :: int where
  "RATE_DELAY = 3"

partial_function (option) paginate ::
  "server \<Rightarrow> (json \<Rightarrow> request) \<Rightarrow> ('a \<Rightarrow> json \<Rightarrow> exn + 'a step) \<Rightarrow> 'a \<Rightarrow> json \<Rightarrow> event list
     \<Rightarrow> ((exn + 'a) \<times> event list) option" where
  "paginate srv mk page acc cursor tr =
     (case run_query srv (mk cursor) 3 tr of
        (Inl e, tr1) \<Rightarrow> Some (Inl e, tr1)
      | (Inr result, tr1) \<Rightarrow>
          (case page acc result of
             Inl e \<Rightarrow> Some (Inl e, tr1)
           | Inr Stop \<Rightarrow> Some (Inr acc, tr1)
           | Inr (Last acc') \<Rightarrow> Some (Inr acc', tr1)
           | Inr (More acc' c) \<Rightarrow> paginate srv mk page acc' c (tr1 @ [Slept RATE_DELAY])))"

text \<open>
  The end of every page function:
  \<^verbatim>\<open>
  if not data["pageInfo"]["hasNextPage"]: break
  cursor = data["pageInfo"]["endCursor"]
  \<close>
\<close>

definition next_page :: "json \<Rightarrow> 'a \<Rightarrow> exn + 'a step" where
  "next_page data acc =
     and_then (getitem data ''pageInfo'') (\<lambda>page_info.
     and_then (getitem page_info ''hasNextPage'') (\<lambda>has_next.
     if \<not> truthy has_next then Inr (Last acc)
     else and_then (getitem data ''pageInfo'') (\<lambda>page_info2.
          and_then (getitem page_info2 ''endCursor'') (\<lambda>c. Inr (More acc c)))))"

subsection \<open>get_all_org_members\<close>

text \<open>
  \<^verbatim>\<open>
  if not result or "organization" not in result:
      break
  data = result["organization"]["membersWithRole"]
  users.update([user["login"] for user in data["nodes"]])
  \<close>
\<close>

definition members_request :: "string \<Rightarrow> json \<Rightarrow> request" where
  "members_request org cursor = Request MembersQuery [(''org'', JStr org), (''cursor'', cursor)]"

definition get_all_org_members_page :: "string set \<Rightarrow> json \<Rightarrow> exn + string set step" where
  "get_all_org_members_page users result =
     (if \<not> truthy result then Inr Stop
      else and_then (contains ''organization'' result) (\<lambda>present.
        if \<not> present then Inr Stop
        else and_then (getitem result ''organization'') (\<lambda>organization.
             and_then (getitem organization ''membersWithRole'') (\<lambda>data.
             and_then (getitem data ''nodes'') (\<lambda>nodes.
             and_then (iterate nodes) (\<lambda>node_list.
             and_then (traverse (\<lambda>user. getitem user ''login'') node_list) (\<lambda>login_values.
             and_then (traverse str_of login_values) (\<lambda>logins.
             next_page data (users \<union> set logins)))))))))"

definition get_all_org_members ::
  "server \<Rightarrow> string \<Rightarrow> event list \<Rightarrow> ((exn + string set) \<times> event list) option" where
  "get_all_org_members srv org tr =
     paginate srv (members_request org) get_all_org_members_page {} JNull tr"

subsection \<open>get_all_repos\<close>

text \<open>
  \<^verbatim>\<open>
  if not result or "organization" not in result:
      break
  data = result["organization"]["repositories"]
  repos.extend([r["name"] for r in data["nodes"]])
  \<close>
\<close>

definition repos_request :: "string \<Rightarrow> json \<Rightarrow> request" where
  "repos_request org cursor = Request ReposQuery [(''org'', JStr org), (''cursor'', cursor)]"

definition get_all_repos_page :: "string list \<Rightarrow> json \<Rightarrow> exn + string list step" where
  "get_all_repos_page repos result =
     (if \<not> truthy result then Inr Stop
      else and_then (contains ''organization'' result) (\<lambda>present.
        if \<not> present then Inr Stop
        else and_then (getitem result ''organization'') (\<lambda>organization.
             and_then (getitem organization ''repositories'') (\<lambda>data.
             and_then (getitem data ''nodes'') (\<lambda>nodes.
             and_then (iterate nodes) (\<lambda>node_list.
             and_then (traverse (\<lambda>r. getitem r ''name'') node_list) (\<lambda>name_values.
             and_then (traverse str_of name_values) (\<lambda>names.
             next_page data (repos @ names)))))))))"

definition get_all_repos ::
  "server \<Rightarrow> string \<Rightarrow> event list \<Rightarrow> ((exn + string list) \<times> event list) option" where
  "get_all_repos srv org tr = paginate srv (repos_request org) get_all_repos_page [] JNull tr"

subsection \<open>get_branches\<close>

text \<open>
  \<^verbatim>\<open>
  if not result or "repository" not in result or not result["repository"]:
      break
  refs = result["repository"]["refs"]
  branches.extend([b["name"] for b in refs["nodes"]])
  ...
  return branches or ["main"]
  \<close>
\<close>

definition branches_request :: "string \<Rightarrow> string \<Rightarrow> json \<Rightarrow> request" where
  "branches_request org repo cursor =
     Request BranchesQuery [(''org'', JStr org), (''repo'', JStr repo), (''cursor'', cursor)]"

definition get_branches_page :: "string list \<Rightarrow> json \<Rightarrow> exn + string list step" where
  "get_branches_page branches result =
     (if \<not> truthy result then Inr Stop
      else and_then (contains ''repository'' result) (\<lambda>present.
        if \<not> present then Inr Stop
        else and_then (getitem result ''repository'') (\<lambda>repository.
          if \<not> truthy repository then Inr Stop
          else and_then (getitem result ''repository'') (\<lambda>repository2.
               and_then (getitem repository2 ''refs'') (\<lambda>refs.
               and_then (getitem refs ''nodes'') (\<lambda>nodes.
               and_then (iterate nodes) (\<lambda>node_list.
               and_then (traverse (\<lambda>b. getitem b ''name'') node_list) (\<lambda>name_values.
               and_then (traverse str_of name_values) (\<lambda>names.
               next_page refs (branches @ names))))))))))"

definition get_branches ::
  "server \<Rightarrow> string \<Rightarrow> string \<Rightarrow> event list \<Rightarrow> ((exn + string list) \<times> event list) option" where
  "get_branches srv org repo tr =
     (case paginate srv (branches_request org repo) get_branches_page [] JNull tr of
        None \<Rightarrow> None
      | Some (Inl e, tr1) \<Rightarrow> Some (Inl e, tr1)
      | Some (Inr branches, tr1) \<Rightarrow>
          Some (Inr (if branches = [] then [''main''] else branches), tr1))"

section \<open>Activity feeds\<close>

text \<open>
  The dict a feed builds maps a login to \<open>{"commits": n, "last_commit": ts}\<close> (or
  \<open>issues\<close>/\<open>last_issue\<close>, \<open>prs\<close>/\<open>last_pr\<close>): a count and a last timestamp. A dict
  is an association list with distinct keys in insertion order; \<open>AList.update\<close> replaces
  the value of a key in place and appends a new key at the end, as a dict does.

  \<^verbatim>\<open>
  if login not in user_activity:
      user_activity[login] = {"commits": 0, "last_commit": committed}
  user_activity[login]["commits"] += 1
  user_activity[login]["last_commit"] = later(user_activity[login]["last_commit"], committed)
  \<close>
  \<open>record_activity\<close> is these four lines on a login and a timestamp that are strings,
  as the schema of the API declares them.
\<close>

record activity_record =
  ar_count :: int
  ar_last :: timestamp

type_synonym user_activity = "(string \<times> activity_record) list"

definition record_activity :: "user_activity \<Rightarrow> string \<Rightarrow> string \<Rightarrow> user_activity" where
  "record_activity ua login ts =
     (let ua1 = (if map_of ua login = None
                 then AList.update login \<lparr>ar_count = 0, ar_last = Some ts\<rparr> ua else ua);
          ua2 = AList.map_entry login (\<lambda>e. e\<lparr>ar_count := ar_count e + 1\<rparr>) ua1
      in AList.map_entry login (\<lambda>e. e\<lparr>ar_last := later (ar_last e) (Some ts)\<rparr>) ua2)"

text \<open>
  The feed functions do not look at what the response holds under \<open>login\<close>,
  \<open>committedDate\<close> and \<open>createdAt\<close>: the one becomes a key of the dict and the
  other a value in it, whatever they are. \<open>raw_activity\<close> is the dict with its keys and
  timestamps as received, \<open>later_value\<close> is \<open>later\<close> on such values, where
  \<open>not ts\<close> is the truth value of any object and \<open>max\<close> compares with \<open>>\<close>,
  and \<open>record_entry\<close> is the four lines above on such values. The test
  \<open>login not in user_activity\<close> hashes the login, and \<open>user_activity[login]\<close>
  raises \<open>KeyError\<close> on a key that is not there.
\<close>

record raw_record =
  raw_count :: int
  raw_last :: json

type_synonym raw_activity = "(json \<times> raw_record) list"

definition later_value :: "json \<Rightarrow> json \<Rightarrow> exn + json" where
  "later_value ts1 ts2 =
     (if \<not> truthy ts1 then Inr ts2
      else if \<not> truthy ts2 then Inr ts1
      else py_max ts1 ts2)"

definition record_entry :: "raw_activity \<Rightarrow> json \<Rightarrow> json \<Rightarrow> exn + raw_activity" where
  "record_entry ua login ts =
     (if \<not> hashable login then Inl TypeError
      else
        (let ua1 = (if map_of ua login = None
                    then AList.update login \<lparr>raw_count = 0, raw_last = ts\<rparr> ua else ua);
             ua2 = AList.map_entry login (\<lambda>e. e\<lparr>raw_count := raw_count e + 1\<rparr>) ua1
         in case map_of ua2 login of
              None \<Rightarrow> Inl KeyError
            | Some e \<Rightarrow>
                and_then (later_value (raw_last e) ts) (\<lambda>last.
                Inr (AList.map_entry login (\<lambda>e. e\<lparr>raw_last := last\<rparr>) ua2))))"

text \<open>A \<open>for\<close> loop over a list whose body may raise.\<close>

fun for_each :: "('s \<Rightarrow> 'a \<Rightarrow> exn + 's) \<Rightarrow> 's \<Rightarrow> 'a list \<Rightarrow> exn + 's" where
  "for_each body s [] = Inr s"
| "for_each body s (x # xs) = and_then (body s x) (\<lambda>s'. for_each body s' xs)"

subsection \<open>get_commit_activity\<close>

text \<open>
  \<^verbatim>\<open>
  author = edge["node"]["author"]["user"]
  if author:
      login = author["login"]
      committed = edge["node"]["committedDate"]
      ...
  \<close>
\<close>

definition commit_edge :: "raw_activity \<Rightarrow> json \<Rightarrow> exn + raw_activity" where
  "commit_edge ua edge =
     and_then (getitem edge ''node'') (\<lambda>node.
     and_then (getitem node ''author'') (\<lambda>git_actor.
     and_then (getitem git_actor ''user'') (\<lambda>author.
     if truthy author then
       and_then (getitem author ''login'') (\<lambda>login.
       and_then (getitem edge ''node'') (\<lambda>node2.
       and_then (getitem node2 ''committedDate'') (\<lambda>committed.
       record_entry ua login committed)))
     else Inr ua)))"

text \<open>
  \<^verbatim>\<open>
  if not result or not result.get("repository"):
      break
  ref = result["repository"].get("ref")
  if not ref or not ref.get("target"):
      break
  history = ref["target"].get("history", {})
  for edge in history.get("edges", []):
      ...
  if not history.get("pageInfo", {}).get("hasNextPage"):
      break
  cursor = history["pageInfo"]["endCursor"]
  \<close>
\<close>

definition commits_request :: "string \<Rightarrow> string \<Rightarrow> string \<Rightarrow> json \<Rightarrow> request" where
  "commits_request org repo branch cursor =
     Request CommitsQuery
       [(''org'', JStr org), (''repo'', JStr repo),
        (''branch'', JStr (''refs/heads/'' @ branch)), (''cursor'', cursor)]"

definition get_commit_activity_page :: "raw_activity \<Rightarrow> json \<Rightarrow> exn + raw_activity step" where
  "get_commit_activity_page user_activity result =
     (if \<not> truthy result then Inr Stop
      else and_then (get_method result ''repository'' JNull) (\<lambda>repository.
        if \<not> truthy repository then Inr Stop
        else and_then (getitem result ''repository'') (\<lambda>repository2.
             and_then (get_method repository2 ''ref'' JNull) (\<lambda>ref.
          if \<not> truthy ref then Inr Stop
          else and_then (get_method ref ''target'' JNull) (\<lambda>target.
            if \<not> truthy target then Inr Stop
            else and_then (getitem ref ''target'') (\<lambda>target2.
                 and_then (get_method target2 ''history'' (JObj [])) (\<lambda>history.
                 and_then (get_method history ''edges'' (JArr [])) (\<lambda>edges.
                 and_then (iterate edges) (\<lambda>edge_list.
                 and_then (for_each commit_edge user_activity edge_list) (\<lambda>ua.
                 and_then (get_method history ''pageInfo'' (JObj [])) (\<lambda>page_info.
                 and_then (get_method page_info ''hasNextPage'' JNull) (\<lambda>has_next.
                 if \<not> truthy has_next then Inr (Last ua)
                 else and_then (getitem history ''pageInfo'') (\<lambda>page_info2.
                      and_then (getitem page_info2 ''endCursor'') (\<lambda>c.
                      Inr (More ua c)))))))))))))))"

definition get_commit_activity ::
  "server \<Rightarrow> string \<Rightarrow> string \<Rightarrow> string \<Rightarrow> event list
     \<Rightarrow> ((exn + raw_activity) \<times> event list) option" where
  "get_commit_activity srv org repo branch tr =
     paginate srv (commits_request org repo branch) get_commit_activity_page [] JNull tr"

subsection \<open>get_issue_activity and get_pr_activity\<close>

text \<open>
  The two functions are the same text but for the query, the connection they read
  (\<open>issues\<close>, \<open>pullRequests\<close>) and the names of the two dict fields.
  \<^verbatim>\<open>
  if not result or "repository" not in result:
      break
  issues = result["repository"]["issues"]
  for issue in issues["nodes"]:
      author = issue["author"]
      if author and author.get("login"):
          login = author["login"]
          created = issue["createdAt"]
          ...
  if not issues["pageInfo"]["hasNextPage"]:
      break
  cursor = issues["pageInfo"]["endCursor"]
  \<close>
\<close>

definition created_node :: "raw_activity \<Rightarrow> json \<Rightarrow> exn + raw_activity" where
  "created_node ua node =
     and_then (getitem node ''author'') (\<lambda>author.
     if \<not> truthy author then Inr ua
     else and_then (get_method author ''login'' JNull) (\<lambda>has_login.
       if \<not> truthy has_login then Inr ua
       else and_then (getitem author ''login'') (\<lambda>login.
            and_then (getitem node ''createdAt'') (\<lambda>created.
            record_entry ua login created))))"

definition created_page :: "string \<Rightarrow> raw_activity \<Rightarrow> json \<Rightarrow> exn + raw_activity step" where
  "created_page connection user_activity result =
     (if \<not> truthy result then Inr Stop
      else and_then (contains ''repository'' result) (\<lambda>present.
        if \<not> present then Inr Stop
        else and_then (getitem result ''repository'') (\<lambda>repository.
             and_then (getitem repository connection) (\<lambda>data.
             and_then (getitem data ''nodes'') (\<lambda>nodes.
             and_then (iterate nodes) (\<lambda>node_list.
             and_then (for_each created_node user_activity node_list) (\<lambda>ua.
             next_page data ua)))))))"

definition issues_request :: "string \<Rightarrow> string \<Rightarrow> json \<Rightarrow> request" where
  "issues_request org repo cursor =
     Request IssuesQuery [(''org'', JStr org), (''repo'', JStr repo), (''cursor'', cursor)]"

definition prs_request :: "string \<Rightarrow> string \<Rightarrow> json \<Rightarrow> request" where
  "prs_request org repo cursor =
     Request PullRequestsQuery [(''org'', JStr org), (''repo'', JStr repo), (''cursor'', cursor)]"

definition get_issue_activity_page :: "raw_activity \<Rightarrow> json \<Rightarrow> exn + raw_activity step" where
  "get_issue_activity_page = created_page ''issues''"

definition get_pr_activity_page :: "raw_activity \<Rightarrow> json \<Rightarrow> exn + raw_activity step" where
  "get_pr_activity_page = created_page ''pullRequests''"

definition get_issue_activity ::
  "server \<Rightarrow> string \<Rightarrow> string \<Rightarrow> event list \<Rightarrow> ((exn + raw_activity) \<times> event list) option" where
  "get_issue_activity srv org repo tr =
     paginate srv (issues_request org repo) get_issue_activity_page [] JNull tr"

definition get_pr_activity ::
  "server \<Rightarrow> string \<Rightarrow> string \<Rightarrow> event list \<Rightarrow> ((exn + raw_activity) \<times> event list) option" where
  "get_pr_activity srv org repo tr =
     paginate srv (prs_request org repo) get_pr_activity_page [] JNull tr"

section \<open>Aggregation in main\<close>

text \<open>
  \<^verbatim>\<open>
  for user, data in commits.items():
      if user not in repo_activity:
          repo_activity[user] = {"commits": 0, "issues": 0, "prs": 0,
                                 "last_commit": None, "last_issue": None, "last_pr": None}
      repo_activity[user]["commits"] += data["commits"]
      repo_activity[user]["last_commit"] = later(repo_activity[user]["last_commit"],
                                                 data["last_commit"])
  \<close>
  and the same for \<open>issues\<close> and \<open>prs\<close>, each on its own two fields.
\<close>

record summary =
  commits :: int
  issues :: int
  prs :: int
  last_commit :: timestamp
  last_issue :: timestamp
  last_pr :: timestamp

type_synonym repo_activity = "(string \<times> summary) list"

definition empty_summary :: summary where
  "empty_summary =
     \<lparr>commits = 0, issues = 0, prs = 0, last_commit = None, last_issue = None, last_pr = None\<rparr>"

definition ensure_summary :: "repo_activity \<Rightarrow> string \<Rightarrow> repo_activity" where
  "ensure_summary ra user =
     (if map_of ra user = None then AList.update user empty_summary ra else ra)"

definition merge_commits :: "repo_activity \<Rightarrow> user_activity \<Rightarrow> repo_activity" where
  "merge_commits ra feed =
     foldl (\<lambda>ra (user, data).
         AList.map_entry user (\<lambda>s. s\<lparr>last_commit := later (last_commit s) (ar_last data)\<rparr>)
           (AList.map_entry user (\<lambda>s. s\<lparr>commits := commits s + ar_count data\<rparr>)
             (ensure_summary ra user)))
       ra feed"

definition merge_issues :: "repo_activity \<Rightarrow> user_activity \<Rightarrow> repo_activity" where
  "merge_issues ra feed =
     foldl (\<lambda>ra (user, data).
         AList.map_entry user (\<lambda>s. s\<lparr>last_issue := later (last_issue s) (ar_last data)\<rparr>)
           (AList.map_entry user (\<lambda>s. s\<lparr>issues := issues s + ar_count data\<rparr>)
             (ensure_summary ra user)))
       ra feed"

definition merge_prs :: "repo_activity \<Rightarrow> user_activity \<Rightarrow> repo_activity" where
  "merge_prs ra feed =
     foldl (\<lambda>ra (user, data).
         AList.map_entry user (\<lambda>s. s\<lparr>last_pr := later (last_pr s) (ar_last data)\<rparr>)
           (AList.map_entry user (\<lambda>s. s\<lparr>prs := prs s + ar_count data\<rparr>)
             (ensure_summary ra user)))
       ra feed"

text \<open>
  One repository in \<open>main\<close>: \<open>repo_activity\<close> starts empty, takes the commits of every
  branch in turn, then the issues, then the pull requests.
\<close>

definition aggregate :: "user_activity list \<Rightarrow> user_activity \<Rightarrow> user_activity \<Rightarrow> repo_activity" where
  "aggregate branch_commits issue_feed pr_feed =
     merge_prs (merge_issues (foldl merge_commits [] branch_commits) issue_feed) pr_feed"

text \<open>
  What one feed leaves in its dict, as a function of the records \<open>(login, timestamp)\<close>
  that its pages hold: every page is worked into the same dict, record by record. Logins
  and timestamps are strings here, as in every response that follows the schema.
\<close>

definition feed_activity :: "(string \<times> string) list list \<Rightarrow> user_activity" where
  "feed_activity pages =
     foldl (foldl (\<lambda>ua (login, ts). record_activity ua login ts)) [] pages"

section \<open>The report: save_to_csv\<close>

text \<open>
  \<^verbatim>\<open>
  cutoff = datetime.now(timezone.utc) - timedelta(days=THRESHOLD_DAYS)
  ...
  if last_activity:
      dt = datetime.fromisoformat(last_activity.replace("Z", "+00:00"))
      status = "Active" if dt >= cutoff else "Inactive"
  else:
      last_activity = "N/A"
      status = "Inactive"
  \<close>
  The \<open>datetime\<close> of the standard library holds the fields of a date and a time of day in
  the proleptic Gregorian calendar, from year 1 to year 9999 with a resolution of one
  microsecond, and is either naive or aware of its offset from UTC. The model keeps the
  fields as the number of microseconds from 0001-01-01T00:00:00 to the date and time they
  show, and the offset in microseconds, \<open>None\<close> for a naive one.
\<close>

record datetime =
  dt_fields :: int
  dt_utcoffset :: "int option"

definition is_leap :: "int \<Rightarrow> bool" where
  "is_leap year = (year mod 4 = 0 \<and> (year mod 100 \<noteq> 0 \<or> year mod 400 = 0))"

definition days_before_year :: "int \<Rightarrow> int" where
  "days_before_year year =
     (let y = year - 1 in y * 365 + y div 4 - y div 100 + y div 400)"

definition days_in_month :: "int \<Rightarrow> int \<Rightarrow> int" where
  "days_in_month year month =
     (if month = 2 then (if is_leap year then 29 else 28)
      else if month \<in> {4, 6, 9, 11} then 30 else 31)"

definition days_before_month :: "int \<Rightarrow> int \<Rightarrow> int" where
  "days_before_month year month = (\<Sum>m \<leftarrow> [1..month - 1]. days_in_month year m)"

definition day_us :: int where
  "day_us = 86400000000"

text \<open>The last microsecond of 9999-12-31, the largest \<open>datetime\<close>.\<close>

definition max_us :: int where
  "max_us = 3652059 * 86400000000 - 1"

text \<open>
  The constructor \<open>datetime(year, month, day, hour, minute, second, microsecond, tzinfo)\<close>:
  a field out of range is a \<open>ValueError\<close>.
\<close>

definition new_datetime ::
  "int \<Rightarrow> int \<Rightarrow> int \<Rightarrow> int \<Rightarrow> int \<Rightarrow> int \<Rightarrow> int \<Rightarrow> int option \<Rightarrow> exn + datetime" where
  "new_datetime year month day hour minute second microsecond tz =
     (if 1 \<le> year \<and> year \<le> 9999 \<and> 1 \<le> month \<and> month \<le> 12
         \<and> 1 \<le> day \<and> day \<le> days_in_month year month
         \<and> 0 \<le> hour \<and> hour \<le> 23 \<and> 0 \<le> minute \<and> minute \<le> 59
         \<and> 0 \<le> second \<and> second \<le> 59 \<and> 0 \<le> microsecond \<and> microsecond \<le> 999999
      then Inr \<lparr>dt_fields =
                  (days_before_year year + days_before_month year month + day - 1) * day_us
                  + ((hour * 60 + minute) * 60 + second) * 1000000 + microsecond,
                dt_utcoffset = tz\<rparr>
      else Inl ValueError)"

text \<open>
  \<open>a >= b\<close> between two datetimes: two naive ones compare by their fields, two aware ones
  by the instants they denote, which are their fields less their offsets; a naive one and
  an aware one do not compare, \<open>TypeError\<close>.
\<close>

fun py_ge :: "datetime \<Rightarrow> datetime \<Rightarrow> exn + bool" where
  "py_ge a b =
     (case (dt_utcoffset a, dt_utcoffset b) of
        (None, None) \<Rightarrow> Inr (dt_fields b \<le> dt_fields a)
      | (Some oa, Some ob) \<Rightarrow> Inr (dt_fields b - ob \<le> dt_fields a - oa)
      | _ \<Rightarrow> Inl TypeError)"

text \<open>
  \<open>datetime.now(timezone.utc) - timedelta(days=THRESHOLD_DAYS)\<close>. The clock is an input:
  \<open>now\<close> is the reading of \<open>datetime.now(timezone.utc)\<close>, an aware datetime at offset 0.
  \<open>timedelta\<close> takes at most 999999999 days either way, and the difference has to be a
  \<open>datetime\<close> again; otherwise \<open>OverflowError\<close>.
\<close>

definition cutoff_of :: "int \<Rightarrow> int \<Rightarrow> exn + datetime" where
  "cutoff_of now threshold_days =
     (if threshold_days < - 999999999 \<or> 999999999 < threshold_days then Inl OverflowError
      else let c = now - threshold_days * day_us
           in if c < 0 \<or> max_us < c then Inl OverflowError
              else Inr \<lparr>dt_fields = c, dt_utcoffset = Some 0\<rparr>)"

text \<open>\<open>s.replace("Z", "+00:00")\<close> replaces every \<open>Z\<close> of the string.\<close>

definition replace_Z :: "string \<Rightarrow> string" where
  "replace_Z s = concat (map (\<lambda>c. if c = CHR ''Z'' then ''+00:00'' else [c]) s)"

text \<open>
  The last two columns of a row. \<open>datetime.fromisoformat\<close> belongs to the library and its
  grammar has changed between versions of Python, so it is a parameter here: a function
  from a string to a datetime, or to the \<open>ValueError\<close> it raises.
\<close>

fun classify ::
  "(string \<Rightarrow> exn + datetime) \<Rightarrow> datetime \<Rightarrow> timestamp \<Rightarrow> exn + string \<times> string" where
  "classify fromisoformat cutoff None = Inr (''N/A'', ''Inactive'')"
| "classify fromisoformat cutoff (Some last_activity) =
     (if last_activity = [] then Inr (''N/A'', ''Inactive'')
      else and_then (fromisoformat (replace_Z last_activity)) (\<lambda>dt.
           and_then (py_ge dt cutoff) (\<lambda>active.
           Inr (last_activity, if active then ''Active'' else ''Inactive''))))"

text \<open>
  \<^verbatim>\<open>
  for user in sorted(all_users):
      data = activity.get(user, {})
      commits = data.get("commits", 0)
      issues = data.get("issues", 0)
      prs = data.get("prs", 0)
      last_commit = data.get("last_commit")
      last_issue = data.get("last_issue")
      last_pr = data.get("last_pr")
      last_activity = later(later(last_commit, last_issue), last_pr)
      ...
      writer.writerow([user, commits, issues, prs, last_activity, status])
  \<close>
  A row is the list of cells handed to \<open>writer.writerow\<close>.
\<close>

datatype cell = Str string | Num int

definition report_row ::
  "(string \<Rightarrow> exn + datetime) \<Rightarrow> datetime \<Rightarrow> repo_activity \<Rightarrow> string \<Rightarrow> exn + cell list" where
  "report_row fromisoformat cutoff activity user =
     (let data = map_of activity user;
          commits = (case data of None \<Rightarrow> 0 | Some s \<Rightarrow> commits s);
          issues = (case data of None \<Rightarrow> 0 | Some s \<Rightarrow> issues s);
          prs = (case data of None \<Rightarrow> 0 | Some s \<Rightarrow> prs s);
          last_commit = (case data of None \<Rightarrow> None | Some s \<Rightarrow> last_commit s);
          last_issue = (case data of None \<Rightarrow> None | Some s \<Rightarrow> last_issue s);
          last_pr = (case data of None \<Rightarrow> None | Some s \<Rightarrow> last_pr s);
          last_activity = later (later last_commit last_issue) last_pr
      in and_then (classify fromisoformat cutoff last_activity) (\<lambda>(shown, status).
         Inr [Str user, Num commits, Num issues, Num prs, Str shown, Str status]))"

text \<open>
  Writing is an effect: a row that is written stays in the file when a later row raises.
  \<open>write_rows\<close> is a loop that writes one row for each element of a list, given the rows
  already in the file; it returns the exception that ended it, if any, and the rows in
  the file then.
\<close>

fun write_rows ::
  "('a \<Rightarrow> exn + cell list) \<Rightarrow> 'a list \<Rightarrow> cell list list \<Rightarrow> exn option \<times> cell list list" where
  "write_rows row [] out = (None, out)"
| "write_rows row (x # xs) out =
     (case row x of
        Inl e \<Rightarrow> (Some e, out)
      | Inr r \<Rightarrow> write_rows row xs (out @ [r]))"

text \<open>
  \<^verbatim>\<open>
  writer.writerow([f"Repository: {repo_name}"])
  writer.writerow(["Username", "Commits", "Issues", "PRs", "Last Activity", "Status"])
  for user in sorted(all_users):
      ...
  writer.writerow([])
  \<close>
  \<open>all_users\<close> is a Python set, so it is finite, and \<open>sorted\<close> lists it in the order
  of strings.
\<close>

definition write_repo ::
  "(string \<Rightarrow> exn + datetime) \<Rightarrow> datetime \<Rightarrow> string set \<Rightarrow> string \<times> repo_activity
     \<Rightarrow> cell list list \<Rightarrow> exn option \<times> cell list list" where
  "write_repo fromisoformat cutoff all_users repo out =
     (case repo of (repo_name, activity) \<Rightarrow>
        (case write_rows (report_row fromisoformat cutoff activity) (sorted_list_of_set all_users)
                (out @ [[Str (''Repository: '' @ repo_name)],
                         [Str ''Username'', Str ''Commits'', Str ''Issues'', Str ''PRs'',
                          Str ''Last Activity'', Str ''Status'']]) of
           (Some e, out1) \<Rightarrow> (Some e, out1)
         | (None, out1) \<Rightarrow> (None, out1 @ [[]])))"

fun write_repos ::
  "(string \<Rightarrow> exn + datetime) \<Rightarrow> datetime \<Rightarrow> string set \<Rightarrow> (string \<times> repo_activity) list
     \<Rightarrow> cell list list \<Rightarrow> exn option \<times> cell list list" where
  "write_repos fromisoformat cutoff all_users [] out = (None, out)"
| "write_repos fromisoformat cutoff all_users (repo # repos) out =
     (case write_repo fromisoformat cutoff all_users repo out of
        (Some e, out1) \<Rightarrow> (Some e, out1)
      | (None, out1) \<Rightarrow> write_repos fromisoformat cutoff all_users repos out1)"

text \<open>
  \<open>save_to_csv\<close>: the cutoff is computed before the file is opened. The name of the file
  and the printing are left out.
\<close>

definition save_to_csv ::
  "(string \<Rightarrow> exn + datetime) \<Rightarrow> int \<Rightarrow> int \<Rightarrow> (string \<times> repo_activity) list \<Rightarrow> string set
     \<Rightarrow> exn option \<times> cell list list" where
  "save_to_csv fromisoformat now threshold_days repo_data all_users =
     (case cutoff_of now threshold_days of
        Inl e \<Rightarrow> (Some e, [])
      | Inr cutoff \<Rightarrow> write_repos fromisoformat cutoff all_users repo_data [])"

section \<open>Responses that follow the schema\<close>

text \<open>
  The \<open>data\<close> of a well-formed response to the repositories and the branches query,
  built from the names on the page, \<open>hasNextPage\<close> and \<open>endCursor\<close>.
\<close>

definition page_info :: "bool \<Rightarrow> json \<Rightarrow> json" where
  "page_info has_next c = JObj [(''hasNextPage'', JBool has_next), (''endCursor'', c)]"

definition named_nodes :: "string list \<Rightarrow> json" where
  "named_nodes names = JArr (map (\<lambda>n. JObj [(''name'', JStr n)]) names)"


definition branches_result :: "string list \<Rightarrow> bool \<Rightarrow> json \<Rightarrow> json" where
  "branches_result names has_next c =
     JObj [(''repository'',
       JObj [(''refs'',
         JObj [(''pageInfo'', page_info has_next c), (''nodes'', named_nodes names)])])]"

text \<open>
  The transport delivers a chain of pages: \<open>run_query\<close>, asked with the cursor at hand,
  returns the first page, which announces a next page exactly when there is one, and
  asked with that page's \<open>endCursor\<close> after the delay between pages it delivers the rest
  in the same way. Each page comes with its \<open>endCursor\<close>.
\<close>

fun served ::
  "server \<Rightarrow> (json \<Rightarrow> request) \<Rightarrow> ('i \<Rightarrow> bool \<Rightarrow> json \<Rightarrow> json) \<Rightarrow> json \<Rightarrow> event list
     \<Rightarrow> ('i \<times> json) list \<Rightarrow> bool" where
  "served srv mk enc cursor tr [] = False"
| "served srv mk enc cursor tr [(items, c)] =
     (fst (run_query srv (mk cursor) 3 tr) = Inr (enc items False c))"
| "served srv mk enc cursor tr ((items, c) # p # ps) =
     (fst (run_query srv (mk cursor) 3 tr) = Inr (enc items True c)
      \<and> served srv mk enc c (snd (run_query srv (mk cursor) 3 tr) @ [Slept RATE_DELAY]) (p # ps))"

text \<open>
  The \<open>data\<close> of a well-formed response to the commits query and to the issues and
  pull-requests queries, built from the records of the page: the login of the author,
  absent when the record has no author on the platform, and the timestamp.
\<close>

definition author_json :: "string option \<Rightarrow> json" where
  "author_json login = (case login of None \<Rightarrow> JNull | Some l \<Rightarrow> JObj [(''login'', JStr l)])"

definition commit_edge_json :: "string option \<times> string \<Rightarrow> json" where
  "commit_edge_json r =
     JObj [(''node'',
       JObj [(''committedDate'', JStr (snd r)),
             (''author'', JObj [(''user'', author_json (fst r))])])]"

definition commits_result :: "(string option \<times> string) list \<Rightarrow> bool \<Rightarrow> json \<Rightarrow> json" where
  "commits_result records has_next c =
     JObj [(''repository'',
       JObj [(''ref'',
         JObj [(''target'',
           JObj [(''history'',
             JObj [(''pageInfo'', page_info has_next c),
                   (''edges'', JArr (map commit_edge_json records))])])])])]"

definition created_node_json :: "string option \<times> string \<Rightarrow> json" where
  "created_node_json r = JObj [(''createdAt'', JStr (snd r)), (''author'', author_json (fst r))]"

definition created_result ::
  "string \<Rightarrow> (string option \<times> string) list \<Rightarrow> bool \<Rightarrow> json \<Rightarrow> json" where
  "created_result connection records has_next c =
     JObj [(''repository'',
       JObj [(connection,
         JObj [(''pageInfo'', page_info has_next c),
               (''nodes'', JArr (map created_node_json records))])])]"

text \<open>The records of a page that have an author, which are those a feed counts.\<close>

fun attributed :: "(string option \<times> string) list \<Rightarrow> (string \<times> string) list" where
  "attributed [] = []"
| "attributed ((None, ts) # rs) = attributed rs"
| "attributed ((Some l, ts) # rs) = (l, ts) # attributed rs"

definition record_all :: "user_activity \<Rightarrow> (string \<times> string) list \<Rightarrow> user_activity" where
  "record_all = foldl (\<lambda>ua (login, ts). record_activity ua login ts)"

text \<open>A successful response carrying \<open>data\<close>.\<close>

definition ok :: "json \<Rightarrow> outcome" where
  "ok d = Response 200 (Some (JObj [(''data'', d)]))"

text \<open>
  A server that answers by the cursor of the request: the table maps a cursor to the
  \<open>data\<close> of the page that starts there.
\<close>

definition cursor_server :: "(json \<times> json) list \<Rightarrow> server" where
  "cursor_server table tr req =
     (case req of Request q variables \<Rightarrow>
        (case map_of variables ''cursor'' of
           None \<Rightarrow> Response 400 None
         | Some c \<Rightarrow> (case map_of table c of None \<Rightarrow> Response 400 None | Some d \<Rightarrow> ok d)))"

text \<open>
  A dict of logins and timestamps that are strings, as a feed function holds it: the
  login as the key, the timestamp as the value, \<open>None\<close> for an absent one.
\<close>

definition json_of_timestamp :: "timestamp \<Rightarrow> json" where
  "json_of_timestamp t = (case t of None \<Rightarrow> JNull | Some s \<Rightarrow> JStr s)"

definition entry_as_received :: "activity_record \<Rightarrow> raw_record" where
  "entry_as_received e = \<lparr>raw_count = ar_count e, raw_last = json_of_timestamp (ar_last e)\<rparr>"

definition as_received :: "user_activity \<Rightarrow> raw_activity" where
  "as_received ua = map (\<lambda>(login, e). (JStr login, entry_as_received e)) ua"

text \<open>
  The schema declares \<open>committedDate\<close> and \<open>createdAt\<close> as \<open>DateTime!\<close>, a
  field that is never null. \<open>dated\<close> holds of a value that has no \<open>null\<close> under
  either key, at any depth.
\<close>

fun dated :: "json \<Rightarrow> bool"
  and dated_list :: "json list \<Rightarrow> bool"
  and dated_items :: "(string \<times> json) list \<Rightarrow> bool" where
  "dated (JArr xs) = dated_list xs"
| "dated (JObj kvs) = dated_items kvs"
| "dated _ = True"
| "dated_list [] = True"
| "dated_list (x # xs) = (dated x \<and> dated_list xs)"
| "dated_items [] = True"
| "dated_items ((k, v) # kvs) =
     ((k = ''committedDate'' \<or> k = ''createdAt'' \<longrightarrow> v \<noteq> JNull) \<and> dated v \<and> dated_items kvs)"

text \<open>
  The invariant of a feed's dict: distinct keys, and every entry counted at least once
  and dated.
\<close>

definition entries_ok :: "raw_activity \<Rightarrow> bool" where
  "entries_ok ua = (distinct (map fst ua) \<and>
      (\<forall>l e. map_of ua l = Some e \<longrightarrow> 1 \<le> raw_count e \<and> raw_last e \<noteq> JNull))"

section \<open>What the records of a user amount to\<close>

text \<open>
  The timestamps of the records of one user in a feed, and the true maximum of a list of
  timestamps: \<open>None\<close> when there is none.
\<close>

definition stamps_of :: "string \<Rightarrow> (string \<times> string) list \<Rightarrow> string list" where
  "stamps_of user records = map snd (filter (\<lambda>r. fst r = user) records)"

definition latest :: "string list \<Rightarrow> timestamp" where
  "latest ts = (if ts = [] then None else Some (Max (set ts)))"

text \<open>
  The two assignments that \<open>main\<close> makes to a summary for one entry of a feed, and the
  summary of a user as \<open>main\<close> would create it when absent.
\<close>

definition with_commits :: "summary \<Rightarrow> activity_record \<Rightarrow> summary" where
  "with_commits s d =
     s\<lparr>commits := commits s + ar_count d, last_commit := later (last_commit s) (ar_last d)\<rparr>"

definition with_issues :: "summary \<Rightarrow> activity_record \<Rightarrow> summary" where
  "with_issues s d =
     s\<lparr>issues := issues s + ar_count d, last_issue := later (last_issue s) (ar_last d)\<rparr>"

definition with_prs :: "summary \<Rightarrow> activity_record \<Rightarrow> summary" where
  "with_prs s d =
     s\<lparr>prs := prs s + ar_count d, last_pr := later (last_pr s) (ar_last d)\<rparr>"

definition summary_of :: "repo_activity \<Rightarrow> string \<Rightarrow> summary" where
  "summary_of ra u = (case map_of ra u of None \<Rightarrow> empty_summary | Some s \<Rightarrow> s)"

text \<open>What the records of a user in a feed amount to.\<close>

definition tally :: "string list \<Rightarrow> activity_record" where
  "tally ts = \<lparr>ar_count = int (length ts), ar_last = latest ts\<rparr>"

section \<open>Timestamps as the API writes them\<close>

text \<open>
  \<open>YYYY-MM-DDTHH:MM:SS\<close>, to which the API appends \<open>Z\<close>, and the number of
  microseconds from 0001-01-01T00:00:00 to that date and time.
\<close>

definition digit_char :: "nat \<Rightarrow> char" where
  "digit_char d = char_of (48 + d)"

definition pad2 :: "nat \<Rightarrow> string" where
  "pad2 n = [digit_char (n div 10), digit_char (n mod 10)]"

definition pad4 :: "nat \<Rightarrow> string" where
  "pad4 n = [digit_char (n div 1000), digit_char (n div 100 mod 10),
             digit_char (n div 10 mod 10), digit_char (n mod 10)]"

definition iso :: "nat \<Rightarrow> nat \<Rightarrow> nat \<Rightarrow> nat \<Rightarrow> nat \<Rightarrow> nat \<Rightarrow> string" where
  "iso year month day hour minute second =
     pad4 year @ ''-'' @ pad2 month @ ''-'' @ pad2 day @ ''T'' @ pad2 hour @ '':''
       @ pad2 minute @ '':'' @ pad2 second"

definition civil_us :: "nat \<Rightarrow> nat \<Rightarrow> nat \<Rightarrow> nat \<Rightarrow> nat \<Rightarrow> nat \<Rightarrow> int" where
  "civil_us year month day hour minute second =
     (days_before_year (int year) + days_before_month (int year) (int month) + int day - 1) * day_us
     + ((int hour * 60 + int minute) * 60 + int second) * 1000000"

definition valid_civil :: "nat \<Rightarrow> nat \<Rightarrow> nat \<Rightarrow> nat \<Rightarrow> nat \<Rightarrow> nat \<Rightarrow> bool" where
  "valid_civil year month day hour minute second =
     (1 \<le> year \<and> year \<le> 9999 \<and> 1 \<le> month \<and> month \<le> 12
      \<and> 1 \<le> day \<and> int day \<le> days_in_month (int year) (int month)
      \<and> hour \<le> 23 \<and> minute \<le> 59 \<and> second \<le> 59)"

text \<open>
  What every version of \<open>datetime.fromisoformat\<close> does with such a date and time followed
  by \<open>+00:00\<close>: it returns the aware datetime with these fields at offset 0.
\<close>

definition reads_utc ::
  "(string \<Rightarrow> exn + datetime) \<Rightarrow> nat \<Rightarrow> nat \<Rightarrow> nat \<Rightarrow> nat \<Rightarrow> nat \<Rightarrow> nat \<Rightarrow> bool" where
  "reads_utc fromisoformat year month day hour minute second =
     (fromisoformat (iso year month day hour minute second @ ''+00:00'')
        = Inr \<lparr>dt_fields = civil_us year month day hour minute second, dt_utcoffset = Some 0\<rparr>)"

text \<open>
  An instance of the library function: the grammar that the library documents up to
  Python 3.10, \<open>YYYY-MM-DD[*HH[:MM[:SS[.fff[fff]]]][+HH:MM[:SS[.ffffff]]]]\<close>, where \<open>*\<close>
  is any one character.
\<close>

definition digit_val :: "char \<Rightarrow> int option" where
  "digit_val c =
     (let k = of_char c :: nat in if 48 \<le> k \<and> k \<le> 57 then Some (int k - 48) else None)"

fun number_from :: "int \<Rightarrow> string \<Rightarrow> int option" where
  "number_from n [] = Some n"
| "number_from n (c # cs) =
     (case digit_val c of None \<Rightarrow> None | Some d \<Rightarrow> number_from (10 * n + d) cs)"

definition number :: "string \<Rightarrow> int option" where
  "number s = (if s = [] then None else number_from 0 s)"

definition parse_isoformat_date :: "string \<Rightarrow> (int \<times> int \<times> int) option" where
  "parse_isoformat_date s =
     (if length s = 10 \<and> take 1 (drop 4 s) = ''-'' \<and> take 1 (drop 7 s) = ''-'' then
        (case (number (take 4 s), number (take 2 (drop 5 s)), number (drop 8 s)) of
           (Some y, Some m, Some d) \<Rightarrow> Some (y, m, d)
         | _ \<Rightarrow> None)
      else None)"

definition parse_hh_mm_ss_ff :: "string \<Rightarrow> (int \<times> int \<times> int \<times> int) option" where
  "parse_hh_mm_ss_ff s =
     (let hh = number (take 2 s); mm = number (take 2 (drop 3 s));
          ss = number (take 2 (drop 6 s)); ff = number (drop 9 s);
          colon1 = (take 1 (drop 2 s) = '':''); colon2 = (take 1 (drop 5 s) = '':'');
          dot = (take 1 (drop 8 s) = ''.'')
      in if length s = 2 then
           (case hh of Some h \<Rightarrow> Some (h, 0, 0, 0) | None \<Rightarrow> None)
         else if length s = 5 \<and> colon1 then
           (case (hh, mm) of (Some h, Some m) \<Rightarrow> Some (h, m, 0, 0) | _ \<Rightarrow> None)
         else if length s = 8 \<and> colon1 \<and> colon2 then
           (case (hh, mm, ss) of (Some h, Some m, Some s) \<Rightarrow> Some (h, m, s, 0) | _ \<Rightarrow> None)
         else if length s = 12 \<and> colon1 \<and> colon2 \<and> dot then
           (case (hh, mm, ss, ff) of
              (Some h, Some m, Some s, Some f) \<Rightarrow> Some (h, m, s, f * 1000) | _ \<Rightarrow> None)
         else if length s = 15 \<and> colon1 \<and> colon2 \<and> dot then
           (case (hh, mm, ss, ff) of
              (Some h, Some m, Some s, Some f) \<Rightarrow> Some (h, m, s, f) | _ \<Rightarrow> None)
         else None)"

fun split_tz :: "string \<Rightarrow> string \<times> (char \<times> string) option" where
  "split_tz [] = ([], None)"
| "split_tz (c # cs) =
     (if c = CHR ''+'' \<or> c = CHR ''-'' then ([], Some (c, cs))
      else (case split_tz cs of (t, z) \<Rightarrow> (c # t, z)))"

definition documented_fromisoformat :: "string \<Rightarrow> exn + datetime" where
  "documented_fromisoformat s =
     (case parse_isoformat_date (take 10 s) of
        None \<Rightarrow> Inl ValueError
      | Some (year, month, day) \<Rightarrow>
          if length s = 10 then new_datetime year month day 0 0 0 0 None
          else
            (case split_tz (drop 11 s) of (timestr, tz) \<Rightarrow>
               (case parse_hh_mm_ss_ff timestr of
                  None \<Rightarrow> Inl ValueError
                | Some (hour, minute, second, microsecond) \<Rightarrow>
                    (case tz of
                       None \<Rightarrow> new_datetime year month day hour minute second microsecond None
                     | Some (sign, tzstr) \<Rightarrow>
                         if length tzstr \<notin> {5, 8, 15} then Inl ValueError
                         else
                           (case parse_hh_mm_ss_ff tzstr of
                              None \<Rightarrow> Inl ValueError
                            | Some (h, m, s, f) \<Rightarrow>
                                (let off = (if sign = CHR ''-'' then - 1 else 1)
                                             * (((h * 60 + m) * 60 + s) * 1000000 + f)
                                 in if - day_us < off \<and> off < day_us
                                    then new_datetime year month day hour minute second
                                           microsecond (Some off)
                                    else Inl ValueError))))))"

text \<open>The character \<open>c\<close> is the decimal digit \<open>k\<close>.\<close>

definition is_digit :: "char \<Rightarrow> nat \<Rightarrow> bool" where
  "is_digit c k = (c = digit_char k \<and> k < 10)"

section \<open>Properties of later\<close>

lemma later_None_left: "later None t = t"
  by simp

lemma later_None_right: "opt_timestamp t \<Longrightarrow> later t None = t"
  by (cases t) (auto simp: opt_timestamp_def)

lemma later_Some_Some: "later (Some a) (Some b) = Some (max a b)"
  by (auto simp: max_def)

lemma later_commute_opt:
  "opt_timestamp a \<Longrightarrow> opt_timestamp b \<Longrightarrow> later a b = later b a"
  by (cases a; cases b) (auto simp: opt_timestamp_def max.commute)

lemma later_assoc: "later (later a b) c = later a (later b c)"
proof (cases a)
  case None
  then show ?thesis by simp
next
  case (Some x)
  note a = Some
  show ?thesis
  proof (cases b)
    case None
    then show ?thesis using a by (cases c) auto
  next
    case (Some y)
    note b = Some
    show ?thesis
    proof (cases c)
      case None
      then show ?thesis using a b by (auto simp: max_def)
    next
      case (Some z)
      have "later (later a b) c = Some (max (max x y) z)"
        unfolding a b Some later_Some_Some ..
      moreover have "later a (later b c) = Some (max x (max y z))"
        unfolding a b Some later_Some_Some ..
      ultimately show ?thesis by (simp add: max.assoc)
    qed
  qed
qed

text \<open>
  The empty string is not a timestamp, and \<open>later\<close> treats it as absent without
  turning it into \<open>None\<close>: there the two argument orders differ.
\<close>

lemma later_empty_string: "later (Some []) None = None \<and> later None (Some []) = Some []"
  by simp

text \<open>
  C2. \<open>later\<close> is an absence-tolerant maximum over optional timestamps:
  \<open>later(None, None) = None\<close>; \<open>later(t, None) = later(None, t) = t\<close> for every timestamp;
  \<open>later(a, b) = later(b, a)\<close>; and \<open>later\<close> is associative, so the merged timestamp
  does not depend on the order of the merges.
\<close>

theorem later_absence_tolerant_max:
  assumes "opt_timestamp a" and "opt_timestamp b"
  shows "later None None = None
       \<and> later a None = a \<and> later None a = a
       \<and> later a b = later b a
       \<and> later (later a b) c = later a (later b c)
       \<and> (\<forall>x y. later (Some x) (Some y) = Some (max x y))"
  using assms later_None_right later_commute_opt later_assoc later_Some_Some
  by (metis later_None_left)

theorem later_absence_tolerant_max_witness:
  "opt_timestamp (Some ''2024-01-01T00:00:00Z'') \<and> opt_timestamp None
     \<and> later (Some ''2024-01-01T00:00:00Z'') None = Some ''2024-01-01T00:00:00Z''
     \<and> later None (Some ''2024-01-01T00:00:00Z'') = Some ''2024-01-01T00:00:00Z''
     \<and> later (Some ''2024-01-01T00:00:00Z'') None = later None (Some ''2024-01-01T00:00:00Z'')
     \<and> later (later (Some ''2024-01-01T00:00:00Z'') None) (Some ''2023-12-31T00:00:00Z'')
         = later (Some ''2024-01-01T00:00:00Z'') (later None (Some ''2023-12-31T00:00:00Z''))"
proof -
  have h1: "opt_timestamp (Some ''2024-01-01T00:00:00Z'')" by (simp add: opt_timestamp_def)
  have h2: "opt_timestamp None" by (simp add: opt_timestamp_def)
  show ?thesis
    using h1 h2
      later_absence_tolerant_max [OF h1 h2, of "Some ''2023-12-31T00:00:00Z''"]
    by simp
qed

section \<open>Properties of run_query\<close>

lemma getitem_Inl: "getitem j k = Inl e \<Longrightarrow> e = KeyError \<or> e = TypeError"
  by (cases j) (auto split: option.splits)

lemma try_body_Inl:
  "try_body srv req m a tr = (Inl e, tr1) \<Longrightarrow>
   (\<And>x. srv tr req = Raises x \<Longrightarrow> is_Exception x) \<Longrightarrow> is_Exception e"
  by (auto simp: try_body_def Let_def
      split: outcome.splits if_splits option.splits sum.splits dest: getitem_Inl)

lemma try_body_failing:
  "failing (srv tr req) \<Longrightarrow> try_body srv req m a tr \<noteq> (Inr (Return d), tr1)"
  by (auto simp: try_body_def Let_def split: outcome.splits if_splits option.splits sum.splits)

lemma run_query_from_Inr:
  assumes "\<And>tr e. srv tr req = Raises e \<Longrightarrow> is_Exception e"
  shows "\<exists>v tr'. run_query_from srv req m a tr = (Inr v, tr')"
  using assms
proof (induction srv req m a tr rule: run_query_from.induct)
  case (1 srv req m a tr)
  note ex = try_body_Inl[of srv req m a tr, OF _ "1.prems"]
  show ?case
    apply (subst run_query_from.simps)
    using "1.IH" "1.prems" ex
    by (auto split: prod.splits sum.splits flow.splits)
qed

lemma run_query_from_exhausted:
  assumes "\<And>tr. failing (srv tr req)"
  shows "fst (run_query_from srv req m a tr) = Inr JNull"
  using assms
proof (induction srv req m a tr rule: run_query_from.induct)
  case (1 srv req m a tr)
  have ex: "\<And>e tr1. try_body srv req m a tr = (Inl e, tr1) \<Longrightarrow> is_Exception e"
    using try_body_Inl[of srv req m a tr] "1.prems"[of tr] by (metis failing.simps(1))
  have nr: "\<And>d tr1. try_body srv req m a tr \<noteq> (Inr (Return d), tr1)"
    using try_body_failing[of srv tr req m a] "1.prems"[of tr] by blast
  show ?case
    apply (subst run_query_from.simps)
    using "1.IH" "1.prems" ex nr
    by (auto split: prod.splits sum.splits flow.splits)
qed

text \<open>
  C5. Whatever failing responses the server sends and whatever \<open>Exception\<close>
  \<open>SESSION.post\<close> or the reading of the body raises, \<open>run_query\<close> raises nothing: it
  returns a value. When every attempt fails, the non-200 path that raises an
  \<open>Exception\<close> of its own included, the value is \<open>None\<close>.
\<close>

theorem run_query_never_raises:
  assumes "\<forall>tr e. srv tr req = Raises e \<longrightarrow> is_Exception e"
  shows "(\<exists>v tr'. run_query srv req max_attempts tr = (Inr v, tr'))
       \<and> ((\<forall>tr. failing (srv tr req)) \<longrightarrow> fst (run_query srv req max_attempts tr) = Inr JNull)"
proof -
  have "\<And>tr e. srv tr req = Raises e \<Longrightarrow> is_Exception e"
    using assms by blast
  then have "\<exists>v tr'. run_query_from srv req max_attempts 0 tr = (Inr v, tr')"
    by (rule run_query_from_Inr)
  then show ?thesis
    using run_query_from_exhausted[of srv req] by (simp add: run_query_def)
qed

theorem run_query_never_raises_witness:
  "fst (run_query
         (scripted [Response 500 None, Raises Timeout, Response 502 (Some (JStr ''Bad Gateway''))])
         (Request ReposQuery [(''org'', JStr ''acme''), (''cursor'', JNull)]) 3 []) = Inr JNull"
proof -
  let ?srv = "scripted [Response 500 None, Raises Timeout, Response 502 (Some (JStr ''Bad Gateway''))]"
  let ?req = "Request ReposQuery [(''org'', JStr ''acme''), (''cursor'', JNull)]"
  have f: "\<And>tr. failing (?srv tr ?req)"
  proof -
    fix tr
    have "posts tr = 0 \<or> posts tr = 1 \<or> posts tr = 2 \<or> 3 \<le> posts tr" by arith
    then show "failing (?srv tr ?req)"
      by (auto simp: scripted_def numeral_3_eq_3 split: list.splits)
  qed
  have e: "\<forall>tr e. ?srv tr ?req = Raises e \<longrightarrow> is_Exception e"
    using f by (metis failing.simps(1))
  show ?thesis
    using e f run_query_never_raises[of ?srv ?req 3 "[]"] by blast
qed

lemma cooled_shift: "cooled req (tr @ [Posted req, Slept 60]) k = cooled req tr (Suc k)"
  by (induction k) auto

lemma run_query_from_403:
  assumes "srv tr req = Response 403 b" and "a < m"
  shows "run_query_from srv req m a tr =
         run_query_from srv req m (a + 1) (tr @ [Posted req, Slept 60])"
  using assms by (subst run_query_from.simps) (simp add: try_body_def)

lemma run_query_from_200:
  assumes "srv tr req = Response 200 (Some j)" and "getitem j ''data'' = Inr d" and "a < m"
  shows "run_query_from srv req m a tr = (Inr d, tr @ [Posted req])"
  using assms by (subst run_query_from.simps) (simp add: try_body_def)

lemma run_query_from_cooled:
  assumes "\<forall>i<k. \<exists>b. srv (cooled req tr i) req = Response 403 b" and "a + int k \<le> m"
  shows "run_query_from srv req m a tr = run_query_from srv req m (a + int k) (cooled req tr k)"
  using assms
proof (induction k)
  case 0
  then show ?case by simp
next
  case (Suc k)
  from Suc.prems obtain b where b: "srv (cooled req tr k) req = Response 403 b" by blast
  have "run_query_from srv req m a tr = run_query_from srv req m (a + int k) (cooled req tr k)"
    using Suc by simp
  also have "\<dots> = run_query_from srv req m (a + int k + 1)
                      (cooled req tr k @ [Posted req, Slept 60])"
    using b Suc.prems(2) by (intro run_query_from_403) auto
  finally show ?case by (simp add: ac_simps)
qed

text \<open>
  C4, as the code has it. On a 403 \<open>run_query\<close> sleeps 60 seconds and goes on with the
  next attempt of \<open>range(max_attempts)\<close>: the 403 uses up an attempt. So \<open>k\<close> responses
  403 followed by a 200 give the successful result when \<open>k < max_attempts\<close>, and
  \<open>None\<close>, with no further request sent, when \<open>k = max_attempts\<close>.
\<close>

theorem run_query_403_consumes_attempt:
  assumes "\<forall>i<k. \<exists>b. srv (cooled req tr i) req = Response 403 b"
  shows "(int k < max_attempts \<longrightarrow> srv (cooled req tr k) req = Response 200 (Some j) \<longrightarrow>
            getitem j ''data'' = Inr d \<longrightarrow>
            run_query srv req max_attempts tr = (Inr d, cooled req tr k @ [Posted req]))
       \<and> (int k = max_attempts \<longrightarrow>
            run_query srv req max_attempts tr = (Inr JNull, cooled req tr k))"
proof (intro conjI impI)
  assume "int k < max_attempts" and "srv (cooled req tr k) req = Response 200 (Some j)"
    and "getitem j ''data'' = Inr d"
  then show "run_query srv req max_attempts tr = (Inr d, cooled req tr k @ [Posted req])"
    using assms run_query_from_cooled[of k srv req tr 0 max_attempts]
      run_query_from_200[of srv "cooled req tr k" req j d "int k" max_attempts]
    by (simp add: run_query_def)
next
  assume "int k = max_attempts"
  then show "run_query srv req max_attempts tr = (Inr JNull, cooled req tr k)"
    using assms run_query_from_cooled[of k srv req tr 0 max_attempts]
    by (simp add: run_query_def run_query_from.simps[of srv req max_attempts max_attempts])
qed

theorem run_query_403_consumes_attempt_witness:
  "run_query
     (scripted [Response 403 None, Response 403 None,
                Response 200 (Some (JObj [(''data'', JObj [(''organization'', JNull)])]))])
     (Request MembersQuery [(''org'', JStr ''acme''), (''cursor'', JNull)]) 3 []
   = (Inr (JObj [(''organization'', JNull)]),
      [Posted (Request MembersQuery [(''org'', JStr ''acme''), (''cursor'', JNull)]), Slept 60,
       Posted (Request MembersQuery [(''org'', JStr ''acme''), (''cursor'', JNull)]), Slept 60,
       Posted (Request MembersQuery [(''org'', JStr ''acme''), (''cursor'', JNull)])])"
proof -
  let ?srv = "scripted [Response 403 None, Response 403 None,
                Response 200 (Some (JObj [(''data'', JObj [(''organization'', JNull)])]))]"
  let ?req = "Request MembersQuery [(''org'', JStr ''acme''), (''cursor'', JNull)]"
  have h: "\<forall>i<2. \<exists>b. ?srv (cooled ?req [] i) ?req = Response 403 b"
    by (auto simp: scripted_def less_Suc_eq numeral_2_eq_2)
  have c2: "cooled ?req [] 2 = [Posted ?req, Slept 60, Posted ?req, Slept 60]"
    by (simp add: numeral_2_eq_2)
  have ok: "?srv (cooled ?req [] 2) ?req
              = Response 200 (Some (JObj [(''data'', JObj [(''organization'', JNull)])]))"
    unfolding c2 by (simp add: scripted_def)
  have g: "getitem (JObj [(''data'', JObj [(''organization'', JNull)])]) ''data''
             = Inr (JObj [(''organization'', JNull)])"
    by simp
  show ?thesis
    using h ok g
      run_query_403_consumes_attempt[of 2 ?srv ?req "[]" 3
        "JObj [(''data'', JObj [(''organization'', JNull)])]" "JObj [(''organization'', JNull)]"]
    unfolding c2 by simp
qed

text \<open>
  C4, as the claim states it, fails: three 403 responses use up the three attempts, and
  the 200 that would follow is never asked for.
\<close>

theorem run_query_403_counterexample:
  "run_query
     (scripted [Response 403 None, Response 403 None, Response 403 None,
                Response 200 (Some (JObj [(''data'', JObj [(''organization'', JNull)])]))])
     (Request MembersQuery [(''org'', JStr ''acme''), (''cursor'', JNull)]) 3 []
   = (Inr JNull,
      [Posted (Request MembersQuery [(''org'', JStr ''acme''), (''cursor'', JNull)]), Slept 60,
       Posted (Request MembersQuery [(''org'', JStr ''acme''), (''cursor'', JNull)]), Slept 60,
       Posted (Request MembersQuery [(''org'', JStr ''acme''), (''cursor'', JNull)]), Slept 60])"
  by (simp add: run_query_def run_query_from.simps try_body_def scripted_def)

section \<open>Properties of the pagination loop\<close>

lemma paginate_served:
  assumes "served srv mk enc cursor tr ps"
    and "\<And>acc items has_next c.
           page acc (enc items has_next c) =
             Inr (if has_next then More (f acc items) c else Last (f acc items))"
  shows "\<exists>t. paginate srv mk page acc cursor tr = Some (Inr (foldl f acc (map fst ps)), t)"
  using assms(1)
proof (induction ps arbitrary: acc cursor tr)
  case Nil
  then show ?case by simp
next
  case (Cons p ps)
  obtain items c where p: "p = (items, c)" by (cases p)
  show ?case
  proof (cases ps)
    case Nil
    with Cons.prems p obtain t where "run_query srv (mk cursor) 3 tr = (Inr (enc items False c), t)"
      by (cases "run_query srv (mk cursor) 3 tr") auto
    then show ?thesis
      using Nil p by (subst paginate.simps) (simp add: assms(2))
  next
    case (Cons q qs)
    with Cons.prems p obtain t where rq: "run_query srv (mk cursor) 3 tr = (Inr (enc items True c), t)"
      by (cases "run_query srv (mk cursor) 3 tr") auto
    from Cons.prems p Cons rq have "served srv mk enc c (t @ [Slept RATE_DELAY]) ps" by simp
    from Cons.IH[OF this, of "f acc items"] obtain t' where
      "paginate srv mk page (f acc items) c (t @ [Slept RATE_DELAY])
         = Some (Inr (foldl f (f acc items) (map fst ps)), t')" by blast
    then show ?thesis
      using rq p by (subst paginate.simps) (simp add: assms(2))
  qed
qed

lemma paginate_Stop:
  assumes "run_query srv (mk cursor) 3 tr = (Inr result, t)" and "page acc result = Inr Stop"
  shows "paginate srv mk page acc cursor tr = Some (Inr acc, t)"
  using assms by (subst paginate.simps) simp

lemma traverse_name: "traverse (\<lambda>r. getitem r ''name'') (map (\<lambda>n. JObj [(''name'', JStr n)]) names) = Inr (map JStr names)"
  by (induction names) auto

lemma traverse_str_of: "traverse str_of (map JStr names) = Inr names"
  by (induction names) auto

lemma next_page_page_info:
  "getitem data ''pageInfo'' = Inr (page_info has_next c) \<Longrightarrow>
   next_page data acc = Inr (if has_next then More acc c else Last acc)"
  by (simp add: next_page_def page_info_def)


lemma get_branches_page_result:
  "get_branches_page branches (branches_result names has_next c) =
     Inr (if has_next then More (branches @ names) c else Last (branches @ names))"
  by (simp add: get_branches_page_def branches_result_def named_nodes_def traverse_name traverse_str_of
      next_page_page_info)

lemma foldl_append_concat: "foldl (@) acc xss = acc @ concat xss"
  by (induction xss arbitrary: acc) auto

lemma and_then_Inr_iff: "and_then m f = Inr y \<longleftrightarrow> (\<exists>x. m = Inr x \<and> f x = Inr y)"
  by (cases m) auto

lemma map_of_record_activity:
  "map_of (record_activity ua l ts) =
     (map_of ua)(l \<mapsto> (case map_of ua l of
                          None \<Rightarrow> \<lparr>ar_count = 1, ar_last = Some ts\<rparr>
                        | Some e \<Rightarrow> \<lparr>ar_count = ar_count e + 1, ar_last = later (ar_last e) (Some ts)\<rparr>))"
  by (rule ext) (auto simp: record_activity_def Let_def map_of_map_entry update_conv' split: option.splits)

lemma distinct_record_activity:
  "distinct (map fst ua) \<Longrightarrow> distinct (map fst (record_activity ua l ts))"
  by (simp add: record_activity_def Let_def distinct_map_entry distinct_update)

lemma py_max_selects: "py_max a b = Inr v \<Longrightarrow> v = a \<or> v = b"
  by (auto simp: py_max_def and_then_Inr_iff)

lemma later_value_not_null: "later_value a ts = Inr v \<Longrightarrow> ts \<noteq> JNull \<Longrightarrow> v \<noteq> JNull"
  by (auto simp: later_value_def split: if_splits dest!: py_max_selects)

lemma map_of_record_entry:
  assumes "record_entry ua l ts = Inr ua'"
  shows "\<exists>v. later_value (case map_of ua l of None \<Rightarrow> ts | Some e \<Rightarrow> raw_last e) ts = Inr v
           \<and> map_of ua' = (map_of ua)(l \<mapsto>
               \<lparr>raw_count = (case map_of ua l of None \<Rightarrow> 0 | Some e \<Rightarrow> raw_count e) + 1,
                raw_last = v\<rparr>)"
  using assms
  by (cases "map_of ua l")
     (auto simp: record_entry_def Let_def map_of_map_entry update_conv' and_then_Inr_iff fun_eq_iff
       split: if_splits option.splits)

lemma distinct_record_entry:
  "record_entry ua l ts = Inr ua' \<Longrightarrow> distinct (map fst ua) \<Longrightarrow> distinct (map fst ua')"
  by (auto simp: record_entry_def Let_def and_then_Inr_iff distinct_map_entry distinct_update
      split: if_splits option.splits)

lemma entries_ok_record_entry:
  assumes "record_entry ua l ts = Inr ua'" and "entries_ok ua" and "ts \<noteq> JNull"
  shows "entries_ok ua'"
proof -
  from map_of_record_entry[OF assms(1)] obtain v where
    v: "later_value (case map_of ua l of None \<Rightarrow> ts | Some e \<Rightarrow> raw_last e) ts = Inr v"
    and m: "map_of ua' = (map_of ua)(l \<mapsto>
               \<lparr>raw_count = (case map_of ua l of None \<Rightarrow> 0 | Some e \<Rightarrow> raw_count e) + 1,
                raw_last = v\<rparr>)"
    by blast
  from v assms(3) have nn: "v \<noteq> JNull" by (rule later_value_not_null)
  have "0 \<le> (case map_of ua l of None \<Rightarrow> 0 | Some e \<Rightarrow> raw_count e)"
  proof (cases "map_of ua l")
    case None
    then show ?thesis by simp
  next
    case (Some e)
    with assms(2) have "1 \<le> raw_count e" by (simp add: entries_ok_def)
    with Some show ?thesis by simp
  qed
  with nn m assms(2) have "\<forall>k e. map_of ua' k = Some e \<longrightarrow> 1 \<le> raw_count e \<and> raw_last e \<noteq> JNull"
    by (auto simp: entries_ok_def)
  with distinct_record_entry[OF assms(1)] assms(2) show ?thesis
    by (simp add: entries_ok_def)
qed

lemma dated_items_map_of:
  "dated_items kvs \<Longrightarrow> map_of kvs k = Some v \<Longrightarrow>
   dated v \<and> (k = ''committedDate'' \<or> k = ''createdAt'' \<longrightarrow> v \<noteq> JNull)"
  by (induction kvs) (auto split: if_splits)

lemma dated_getitem: "getitem j k = Inr v \<Longrightarrow> dated j \<Longrightarrow> dated v"
  by (cases j) (auto split: option.splits dest: dated_items_map_of)

lemma dated_getitem_stamp:
  "getitem j k = Inr v \<Longrightarrow> dated j \<Longrightarrow> k = ''committedDate'' \<or> k = ''createdAt'' \<Longrightarrow> v \<noteq> JNull"
  by (cases j) (auto split: option.splits dest: dated_items_map_of)

lemma dated_get_method: "get_method j k d = Inr v \<Longrightarrow> dated j \<Longrightarrow> dated d \<Longrightarrow> dated v"
  by (cases j) (auto split: option.splits dest: dated_items_map_of)

lemma dated_list_set: "dated_list xs \<longleftrightarrow> (\<forall>x\<in>set xs. dated x)"
  by (induction xs) auto

lemma dated_iterate: "iterate j = Inr xs \<Longrightarrow> dated j \<Longrightarrow> \<forall>x\<in>set xs. dated x"
  by (cases j) (auto simp: dated_list_set)

lemma entries_ok_commit_edge:
  assumes "commit_edge ua edge = Inr ua'" and "entries_ok ua" and "dated edge"
  shows "entries_ok ua'"
proof (cases "ua' = ua")
  case True
  with assms(2) show ?thesis by simp
next
  case False
  with assms(1) obtain login node2 committed where
    n: "getitem edge ''node'' = Inr node2" and c: "getitem node2 ''committedDate'' = Inr committed"
    and r: "record_entry ua login committed = Inr ua'"
    by (auto simp: commit_edge_def and_then_Inr_iff split: if_splits)
  from n assms(3) have "dated node2" by (rule dated_getitem)
  with c have "committed \<noteq> JNull" by (rule dated_getitem_stamp) simp
  with r assms(2) show ?thesis by (rule entries_ok_record_entry)
qed

lemma entries_ok_created_node:
  assumes "created_node ua node = Inr ua'" and "entries_ok ua" and "dated node"
  shows "entries_ok ua'"
proof (cases "ua' = ua")
  case True
  with assms(2) show ?thesis by simp
next
  case False
  with assms(1) obtain login created where
    c: "getitem node ''createdAt'' = Inr created"
    and r: "record_entry ua login created = Inr ua'"
    by (auto simp: created_node_def and_then_Inr_iff split: if_splits)
  from c assms(3) have "created \<noteq> JNull" by (rule dated_getitem_stamp) simp
  with r assms(2) show ?thesis by (rule entries_ok_record_entry)
qed

lemma for_each_invariant:
  assumes "for_each body s xs = Inr s'" and "I s" and "\<forall>x\<in>set xs. P x"
    and "\<And>s x s'. body s x = Inr s' \<Longrightarrow> I s \<Longrightarrow> P x \<Longrightarrow> I s'"
  shows "I s'"
  using assms(1,2,3)
proof (induction xs arbitrary: s)
  case Nil
  then show ?case by simp
next
  case (Cons x xs)
  then show ?case by (auto simp: and_then_Inr_iff intro: assms(4))
qed

lemma next_page_acc:
  "next_page data acc = Inr st \<Longrightarrow> (\<exists>c. st = More acc c) \<or> st = Last acc"
  by (auto simp: next_page_def and_then_Inr_iff split: if_splits)

lemma commit_page_ok:
  assumes "get_commit_activity_page ua result = Inr st" and "entries_ok ua" and "dated result"
  shows "case st of Stop \<Rightarrow> True | Last ua' \<Rightarrow> entries_ok ua' | More ua' c \<Rightarrow> entries_ok ua'"
proof (cases "st = Stop")
  case True
  then show ?thesis by simp
next
  case False
  with assms(1) obtain repository2 ref target2 history edges edge_list ua' where
    a: "getitem result ''repository'' = Inr repository2"
       "get_method repository2 ''ref'' JNull = Inr ref"
       "getitem ref ''target'' = Inr target2"
       "get_method target2 ''history'' (JObj []) = Inr history"
       "get_method history ''edges'' (JArr []) = Inr edges"
       "iterate edges = Inr edge_list"
       "for_each commit_edge ua edge_list = Inr ua'"
    and st: "st = Last ua' \<or> (\<exists>c. st = More ua' c)"
    by (auto simp: get_commit_activity_page_def and_then_Inr_iff split: if_splits)
  from a(1) assms(3) have "dated repository2" by (rule dated_getitem)
  with a(2) have "dated ref" by (rule dated_get_method) simp
  with a(3) have "dated target2" by (rule dated_getitem)
  with a(4) have "dated history" by (rule dated_get_method) simp
  with a(5) have "dated edges" by (rule dated_get_method) simp
  with a(6) have "\<forall>x\<in>set edge_list. dated x" by (rule dated_iterate)
  with a(7) assms(2) have "entries_ok ua'"
    by (rule for_each_invariant[where I = entries_ok and P = dated, OF _ _ _ entries_ok_commit_edge])
  with st show ?thesis by auto
qed

lemma created_page_ok:
  assumes "created_page k ua result = Inr st" and "entries_ok ua" and "dated result"
  shows "case st of Stop \<Rightarrow> True | Last ua' \<Rightarrow> entries_ok ua' | More ua' c \<Rightarrow> entries_ok ua'"
proof (cases "st = Stop")
  case True
  then show ?thesis by simp
next
  case False
  with assms(1) obtain repository data nodes node_list ua' where
    a: "getitem result ''repository'' = Inr repository"
       "getitem repository k = Inr data"
       "getitem data ''nodes'' = Inr nodes"
       "iterate nodes = Inr node_list"
       "for_each created_node ua node_list = Inr ua'"
    and st: "next_page data ua' = Inr st"
    by (auto simp: created_page_def and_then_Inr_iff split: if_splits)
  from a(1) assms(3) have "dated repository" by (rule dated_getitem)
  with a(2) have "dated data" by (rule dated_getitem)
  with a(3) have "dated nodes" by (rule dated_getitem)
  with a(4) have "\<forall>x\<in>set node_list. dated x" by (rule dated_iterate)
  with a(5) assms(2) have "entries_ok ua'"
    by (rule for_each_invariant[where I = entries_ok and P = dated, OF _ _ _ entries_ok_created_node])
  with next_page_acc[OF st] show ?thesis by auto
qed

lemma paginate_invariant:
  assumes "paginate srv mk page acc cursor tr = Some (Inr r, t)" and "I acc"
    and "\<And>cursor tr result t. run_query srv (mk cursor) 3 tr = (Inr result, t) \<Longrightarrow> R result"
    and "\<And>a result st. page a result = Inr st \<Longrightarrow> I a \<Longrightarrow> R result \<Longrightarrow>
           (case st of Stop \<Rightarrow> True | Last a' \<Rightarrow> I a' | More a' c \<Rightarrow> I a')"
  shows "I r"
proof -
  have "paginate srv mk page acc cursor tr = Some y \<Longrightarrow>
        (\<forall>r t. y = (Inr r, t) \<longrightarrow> I acc
           \<longrightarrow> (\<forall>cursor tr result t. run_query srv (mk cursor) 3 tr = (Inr result, t) \<longrightarrow> R result)
           \<longrightarrow> (\<forall>a result st. page a result = Inr st \<longrightarrow> I a \<longrightarrow> R result \<longrightarrow>
           (case st of Stop \<Rightarrow> True | Last a' \<Rightarrow> I a' | More a' c \<Rightarrow> I a')) \<longrightarrow> I r)" for y
  proof (induction srv mk page acc cursor tr y rule: paginate.raw_induct[rotated 1, consumes 1])
    case (1 pg srv mk page acc cursor tr y)
    show ?case
    proof (intro allI impI)
      fix r t
      assume y: "y = (Inr r, t)" and acc: "I acc"
        and res: "\<forall>cursor tr result t. run_query srv (mk cursor) 3 tr = (Inr result, t) \<longrightarrow> R result"
        and pres: "\<forall>a result st. page a result = Inr st \<longrightarrow> I a \<longrightarrow> R result \<longrightarrow>
           (case st of Stop \<Rightarrow> True | Last a' \<Rightarrow> I a' | More a' c \<Rightarrow> I a')"
      obtain q t1 where rq: "run_query srv (mk cursor) 3 tr = (q, t1)"
        by (cases "run_query srv (mk cursor) 3 tr")
      show "I r"
      proof (cases q)
        case (Inl e)
        with 1(2) rq y show ?thesis by simp
      next
        case (Inr result)
        with rq res have rr: "R result" by blast
        show ?thesis
        proof (cases "page acc result")
          case (Inl e)
          with 1(2) rq y Inr show ?thesis by simp
        next
          case st: (Inr st)
          from pres st acc rr have c: "case st of Stop \<Rightarrow> True | Last a' \<Rightarrow> I a' | More a' c \<Rightarrow> I a'"
            by blast
          show ?thesis
          proof (cases st)
            case Stop
            with 1(2) rq y Inr st acc show ?thesis by simp
          next
            case (Last a')
            with 1(2) rq y Inr st c show ?thesis by simp
          next
            case (More a' c')
            with 1(2) rq Inr st have "pg srv mk page a' c' (t1 @ [Slept RATE_DELAY]) = Some y" by simp
            from 1(1)[OF this] y c More pres res show ?thesis by simp
          qed
        qed
      qed
    qed
  qed
  with assms show ?thesis by blast
qed

lemma try_body_Return:
  "try_body srv req m a tr = (Inr (Return d), tr1) \<Longrightarrow>
   \<exists>body. srv tr req = Response 200 (Some body) \<and> getitem body ''data'' = Inr d"
  by (auto simp: try_body_def Let_def split: outcome.splits if_splits option.splits sum.splits)

lemma run_query_from_dated:
  assumes "\<forall>tr status body. srv tr req = Response status (Some body) \<longrightarrow> dated body"
  shows "run_query_from srv req m a tr = (Inr v, t) \<Longrightarrow> dated v"
  using assms
proof (induction srv req m a tr rule: run_query_from.induct)
  case (1 srv req m a tr)
  have ret: "dated d" if "try_body srv req m a tr = (Inr (Return d), tr1)" for d tr1
    using try_body_Return[OF that] "1.prems"(2) by (blast intro: dated_getitem)
  show ?case
    using "1.prems"(1)
    apply (subst (asm) run_query_from.simps)
    using "1.IH" "1.prems"(2) ret
    by (auto split: prod.splits sum.splits flow.splits if_splits)
qed

lemma run_query_dated:
  assumes "\<forall>tr req status body. srv tr req = Response status (Some body) \<longrightarrow> dated body"
    and "run_query srv req 3 tr = (Inr result, t)"
  shows "dated result"
  using run_query_from_dated[of srv req 3 0 tr result t] assms by (simp add: run_query_def)


lemma run_query_ok: "srv tr req = ok d \<Longrightarrow> run_query srv req 3 tr = (Inr d, tr @ [Posted req])"
  by (simp add: run_query_def ok_def run_query_from_200)

lemma later_value_timestamps:
  "later_value (json_of_timestamp a) (json_of_timestamp b) = Inr (json_of_timestamp (later a b))"
  by (cases a; cases b) (auto simp: later_value_def json_of_timestamp_def py_max_def max_def)

lemma map_of_as_received: "map_of (as_received ua) (JStr l) = map_option entry_as_received (map_of ua l)"
  by (induction ua) (auto simp: as_received_def)

lemma update_as_received:
  "AList.update (JStr l) (entry_as_received e) (as_received ua) = as_received (AList.update l e ua)"
  by (induction ua) (auto simp: as_received_def)

lemma map_entry_as_received:
  "(\<And>e. map_of ua l = Some e \<Longrightarrow> g (entry_as_received e) = entry_as_received (f e)) \<Longrightarrow>
   AList.map_entry (JStr l) g (as_received ua) = as_received (AList.map_entry l f ua)"
  by (induction ua) (auto simp: as_received_def)

lemma record_entry_strings:
  "record_entry (as_received ua) (JStr l) (JStr ts) = Inr (as_received (record_activity ua l ts))"
proof -
  define ua1 where "ua1 = (if map_of ua l = None
                 then AList.update l \<lparr>ar_count = 0, ar_last = Some ts\<rparr> ua else ua)"
  define ua2 where "ua2 = AList.map_entry l (\<lambda>e. e\<lparr>ar_count := ar_count e + 1\<rparr>) ua1"
  have r1: "(if map_of (as_received ua) (JStr l) = None
             then AList.update (JStr l) \<lparr>raw_count = 0, raw_last = JStr ts\<rparr> (as_received ua)
             else as_received ua) = as_received ua1"
    using update_as_received[of l "\<lparr>ar_count = 0, ar_last = Some ts\<rparr>" ua]
    by (simp add: ua1_def map_of_as_received entry_as_received_def json_of_timestamp_def)
  have r2: "AList.map_entry (JStr l) (\<lambda>e. e\<lparr>raw_count := raw_count e + 1\<rparr>) (as_received ua1)
            = as_received ua2"
    unfolding ua2_def by (rule map_entry_as_received) (simp add: entry_as_received_def)
  obtain e where e: "map_of ua2 l = Some e"
    by (cases "map_of ua l") (auto simp: ua2_def ua1_def map_of_map_entry update_conv')
  have lv: "later_value (raw_last (entry_as_received e)) (JStr ts) = Inr (json_of_timestamp (later (ar_last e) (Some ts)))"
    using later_value_timestamps[of "ar_last e" "Some ts"]
    by (simp add: entry_as_received_def json_of_timestamp_def del: later.simps)
  have r3: "AList.map_entry (JStr l) (\<lambda>e'. e'\<lparr>raw_last := json_of_timestamp (later (ar_last e) (Some ts))\<rparr>)
              (as_received ua2)
            = as_received (AList.map_entry l (\<lambda>e. e\<lparr>ar_last := later (ar_last e) (Some ts)\<rparr>) ua2)"
    by (rule map_entry_as_received) (use e in \<open>simp add: entry_as_received_def del: later.simps\<close>)
  show ?thesis
    unfolding record_entry_def Let_def r1 r2
    using e lv r3
    by (simp add: map_of_as_received record_activity_def Let_def ua1_def ua2_def del: later.simps)
qed

lemma paginate_served_as:
  assumes "served srv mk page_of cursor tr ps"
    and "\<And>acc items has_next c.
           page (view acc) (page_of items has_next c) =
             Inr (if has_next then More (view (f acc items)) c else Last (view (f acc items)))"
  shows "\<exists>t. paginate srv mk page (view acc) cursor tr = Some (Inr (view (foldl f acc (map fst ps))), t)"
  using assms(1)
proof (induction ps arbitrary: acc cursor tr)
  case Nil
  then show ?case by simp
next
  case (Cons p ps)
  obtain items c where p: "p = (items, c)" by (cases p)
  show ?case
  proof (cases ps)
    case Nil
    with Cons.prems p obtain t where "run_query srv (mk cursor) 3 tr = (Inr (page_of items False c), t)"
      by (cases "run_query srv (mk cursor) 3 tr") auto
    then show ?thesis
      using Nil p by (subst paginate.simps) (simp add: assms(2))
  next
    case (Cons q qs)
    with Cons.prems p obtain t where rq: "run_query srv (mk cursor) 3 tr = (Inr (page_of items True c), t)"
      by (cases "run_query srv (mk cursor) 3 tr") auto
    from Cons.prems p Cons rq have "served srv mk page_of c (t @ [Slept RATE_DELAY]) ps" by simp
    from Cons.IH[OF this, of "f acc items"] obtain t' where
      "paginate srv mk page (view (f acc items)) c (t @ [Slept RATE_DELAY])
         = Some (Inr (view (foldl f (f acc items) (map fst ps))), t')" by blast
    then show ?thesis
      using rq p by (subst paginate.simps) (simp add: assms(2))
  qed
qed

lemma commit_edge_json_step:
  "commit_edge (as_received ua) (commit_edge_json (Some l, ts)) = Inr (as_received (record_activity ua l ts))"
  "commit_edge (as_received ua) (commit_edge_json (None, ts)) = Inr (as_received ua)"
  by (simp_all add: commit_edge_def commit_edge_json_def author_json_def record_entry_strings)

lemma for_each_commit_edges:
  "for_each commit_edge (as_received ua) (map commit_edge_json records)
     = Inr (as_received (record_all ua (attributed records)))"
proof (induction records arbitrary: ua rule: attributed.induct)
  case 1
  then show ?case by (simp add: record_all_def)
next
  case (2 ts rs)
  then show ?case by (simp add: commit_edge_json_step)
next
  case (3 l ts rs)
  then show ?case by (simp add: commit_edge_json_step record_all_def)
qed

lemma get_commit_activity_page_result:
  "get_commit_activity_page (as_received ua) (commits_result records has_next c) =
     Inr (if has_next then More (as_received (record_all ua (attributed records))) c
          else Last (as_received (record_all ua (attributed records))))"
  by (simp add: get_commit_activity_page_def commits_result_def for_each_commit_edges page_info_def)

lemma created_node_json_step:
  "created_node (as_received ua) (created_node_json (Some l, ts))
     = Inr (as_received (if l = [] then ua else record_activity ua l ts))"
  "created_node (as_received ua) (created_node_json (None, ts)) = Inr (as_received ua)"
  by (simp_all add: created_node_def created_node_json_def author_json_def record_entry_strings)

lemma for_each_created_nodes:
  "for_each created_node (as_received ua) (map created_node_json records) =
     Inr (as_received (record_all ua (filter (\<lambda>r. fst r \<noteq> []) (attributed records))))"
proof (induction records arbitrary: ua rule: attributed.induct)
  case 1
  then show ?case by (simp add: record_all_def)
next
  case (2 ts rs)
  then show ?case by (simp add: created_node_json_step)
next
  case (3 l ts rs)
  then show ?case by (simp add: created_node_json_step record_all_def)
qed

lemma created_page_result:
  "created_page k (as_received ua) (created_result k records has_next c) =
     Inr (if has_next
          then More (as_received (record_all ua (filter (\<lambda>r. fst r \<noteq> []) (attributed records)))) c
          else Last (as_received (record_all ua (filter (\<lambda>r. fst r \<noteq> []) (attributed records)))))"
  by (simp add: created_page_def created_result_def for_each_created_nodes next_page_page_info)

lemma as_received_Nil: "as_received [] = []"
  by (simp add: as_received_def)

lemma get_commit_activity_served:
  assumes "served srv (commits_request org repo branch) commits_result JNull tr ps"
  shows "\<exists>t. get_commit_activity srv org repo branch tr
             = Some (Inr (as_received (feed_activity (map (\<lambda>p. attributed (fst p)) ps))), t)"
proof -
  have "foldl (\<lambda>ua rs. record_all ua (attributed rs)) ua pages
        = foldl record_all ua (map attributed pages)" for ua pages
    by (induction pages arbitrary: ua) auto
  then show ?thesis
  using paginate_served_as[OF assms, of get_commit_activity_page as_received
      "\<lambda>ua rs. record_all ua (attributed rs)" "[]", OF get_commit_activity_page_result]
  by (simp add: get_commit_activity_def feed_activity_def record_all_def comp_def as_received_Nil)
qed


text \<open>
  C8. A repository that reports no branch, on one page or on several, makes
  \<open>get_branches\<close> return the one name \<open>main\<close>; and whatever the server does,
  \<open>get_branches\<close> never returns an empty list.
\<close>

theorem get_branches_fallback:
  "(served srv (branches_request org repo) branches_result JNull tr ps
      \<and> concat (map fst ps) = []
      \<longrightarrow> (\<exists>t. get_branches srv org repo tr = Some (Inr [''main''], t)))
   \<and> (\<forall>bs t. get_branches srv org repo tr = Some (Inr bs, t) \<longrightarrow> bs \<noteq> [])"
proof (intro conjI impI allI)
  assume a: "served srv (branches_request org repo) branches_result JNull tr ps
      \<and> concat (map fst ps) = []"
  from paginate_served[of srv "branches_request org repo" branches_result JNull tr ps
      get_branches_page "(@)" "[]", OF _ get_branches_page_result] a
  show "\<exists>t. get_branches srv org repo tr = Some (Inr [''main''], t)"
    by (auto simp: get_branches_def foldl_append_concat)
next
  fix bs t
  assume "get_branches srv org repo tr = Some (Inr bs, t)"
  then show "bs \<noteq> []"
    by (auto simp: get_branches_def split: option.splits prod.splits sum.splits if_splits)
qed

theorem get_branches_fallback_witness:
  "\<exists>t. get_branches
          (cursor_server [(JNull, branches_result [] False JNull)]) ''acme'' ''empty-repo'' []
        = Some (Inr [''main''], t)"
proof -
  let ?srv = "cursor_server [(JNull, branches_result [] False JNull)]"
  have s: "served ?srv (branches_request ''acme'' ''empty-repo'') branches_result JNull []
             [([], JNull)]"
    by (simp add: run_query_ok cursor_server_def branches_request_def)
  show ?thesis
    using s get_branches_fallback[of ?srv "''acme''" "''empty-repo''" "[]" "[([], JNull)]"]
    by simp
qed

text \<open>
  C6 at the input where the code departs from it. An organisation or repository that
  does not exist, or that the token cannot see, comes back as \<open>null\<close> under its key.
  The key is present, so the test \<open>"organization" not in result\<close> lets the response
  pass, and the next line subscripts \<open>None\<close>: a \<open>TypeError\<close> leaves the function and
  the items of the earlier pages are lost with it.
\<close>

theorem null_organization_raises:
  "get_all_org_members (cursor_server [(JNull, JObj [(''organization'', JNull)])]) ''ghost'' []
     = Some (Inl TypeError, [Posted (members_request ''ghost'' JNull)])
   \<and> get_all_repos (cursor_server [(JNull, JObj [(''organization'', JNull)])]) ''ghost'' []
     = Some (Inl TypeError, [Posted (repos_request ''ghost'' JNull)])"
  by (simp add: get_all_org_members_def get_all_repos_def paginate.simps run_query_ok
      cursor_server_def members_request_def repos_request_def
      get_all_org_members_page_def get_all_repos_page_def)

text \<open>
  The issues and pull-requests feeds fail in the same way on a \<open>null\<close> repository.
  \<open>get_branches\<close> tests \<open>not result["repository"]\<close> and \<open>get_commit_activity\<close> reads
  with \<open>.get\<close>: both stop cleanly there.
\<close>

lemma null_repository:
  "get_issue_activity (cursor_server [(JNull, JObj [(''repository'', JNull)])]) ''acme'' ''gone'' []
     = Some (Inl TypeError, [Posted (issues_request ''acme'' ''gone'' JNull)])
   \<and> get_pr_activity (cursor_server [(JNull, JObj [(''repository'', JNull)])]) ''acme'' ''gone'' []
     = Some (Inl TypeError, [Posted (prs_request ''acme'' ''gone'' JNull)])
   \<and> get_branches (cursor_server [(JNull, JObj [(''repository'', JNull)])]) ''acme'' ''gone'' []
     = Some (Inr [''main''], [Posted (branches_request ''acme'' ''gone'' JNull)])
   \<and> get_commit_activity (cursor_server [(JNull, JObj [(''repository'', JNull)])]) ''acme'' ''gone'' ''main'' []
     = Some (Inr [], [Posted (commits_request ''acme'' ''gone'' ''main'' JNull)])"
  by (simp add: get_issue_activity_def get_pr_activity_def get_branches_def get_commit_activity_def
      paginate.simps run_query_ok cursor_server_def
      issues_request_def prs_request_def branches_request_def commits_request_def
      get_issue_activity_page_def get_pr_activity_page_def created_page_def
      get_branches_page_def get_commit_activity_page_def)

section \<open>Invariant of the activity feeds\<close>

lemma entries_ok_set:
  "entries_ok ua \<Longrightarrow> \<forall>(login, e) \<in> set ua. 1 \<le> raw_count e \<and> raw_last e \<noteq> JNull"
  by (auto simp: entries_ok_def)

lemma entries_ok_Nil: "entries_ok []"
  by (simp add: entries_ok_def)

text \<open>
  C10. When no response holds a \<open>null\<close> under \<open>committedDate\<close> or
  \<open>createdAt\<close>, which the schema of the API rules out, a dict that
  \<open>get_commit_activity\<close>, \<open>get_issue_activity\<close> or \<open>get_pr_activity\<close> returns
  has only entries with a count of at least 1 and a last timestamp that is not \<open>None\<close>,
  whatever else the server sends.
\<close>

theorem feed_entries_counted_and_dated:
  assumes "\<forall>tr req status body. srv tr req = Response status (Some body) \<longrightarrow> dated body"
  shows "(\<forall>ua t. get_commit_activity srv org repo branch tr = Some (Inr ua, t) \<longrightarrow>
       (\<forall>(login, e) \<in> set ua. 1 \<le> raw_count e \<and> raw_last e \<noteq> JNull))
   \<and> (\<forall>ua t. get_issue_activity srv org repo tr = Some (Inr ua, t) \<longrightarrow>
       (\<forall>(login, e) \<in> set ua. 1 \<le> raw_count e \<and> raw_last e \<noteq> JNull))
   \<and> (\<forall>ua t. get_pr_activity srv org repo tr = Some (Inr ua, t) \<longrightarrow>
       (\<forall>(login, e) \<in> set ua. 1 \<le> raw_count e \<and> raw_last e \<noteq> JNull))"
proof (intro conjI allI impI)
  fix ua t
  assume "get_commit_activity srv org repo branch tr = Some (Inr ua, t)"
  then have "entries_ok ua"
    unfolding get_commit_activity_def
    by (rule paginate_invariant[where I = entries_ok and R = dated,
          OF _ entries_ok_Nil run_query_dated[OF assms] commit_page_ok])
  then show "\<forall>(login, e) \<in> set ua. 1 \<le> raw_count e \<and> raw_last e \<noteq> JNull"
    by (rule entries_ok_set)
next
  fix ua t
  assume "get_issue_activity srv org repo tr = Some (Inr ua, t)"
  then have "entries_ok ua"
    unfolding get_issue_activity_def get_issue_activity_page_def
    by (rule paginate_invariant[where I = entries_ok and R = dated,
          OF _ entries_ok_Nil run_query_dated[OF assms] created_page_ok])
  then show "\<forall>(login, e) \<in> set ua. 1 \<le> raw_count e \<and> raw_last e \<noteq> JNull"
    by (rule entries_ok_set)
next
  fix ua t
  assume "get_pr_activity srv org repo tr = Some (Inr ua, t)"
  then have "entries_ok ua"
    unfolding get_pr_activity_def get_pr_activity_page_def
    by (rule paginate_invariant[where I = entries_ok and R = dated,
          OF _ entries_ok_Nil run_query_dated[OF assms] created_page_ok])
  then show "\<forall>(login, e) \<in> set ua. 1 \<le> raw_count e \<and> raw_last e \<noteq> JNull"
    by (rule entries_ok_set)
qed

theorem feed_entries_counted_and_dated_witness:
  "get_commit_activity
     (cursor_server [(JNull, commits_result
        [(Some ''alice'', ''2024-01-02T10:00:00Z''), (None, ''2024-01-03T10:00:00Z''),
         (Some ''alice'', ''2024-01-05T09:30:00Z'')] False JNull)])
     ''acme'' ''api'' ''main'' []
     = Some (Inr [(JStr ''alice'', \<lparr>raw_count = 2, raw_last = JStr ''2024-01-05T09:30:00Z''\<rparr>)],
             [Posted (commits_request ''acme'' ''api'' ''main'' JNull)])
   \<and> get_issue_activity
     (cursor_server [(JNull, created_result ''issues''
        [(Some ''bob'', ''2024-02-01T08:00:00Z''), (None, ''2024-02-02T08:00:00Z'')] False JNull)])
     ''acme'' ''api'' []
     = Some (Inr [(JStr ''bob'', \<lparr>raw_count = 1, raw_last = JStr ''2024-02-01T08:00:00Z''\<rparr>)],
             [Posted (issues_request ''acme'' ''api'' JNull)])
   \<and> get_pr_activity
     (cursor_server [(JNull, created_result ''pullRequests''
        [(Some ''carol'', ''2024-02-11T08:00:00Z''), (Some ''carol'', ''2024-02-10T08:00:00Z'')]
        False JNull)])
     ''acme'' ''api'' []
     = Some (Inr [(JStr ''carol'', \<lparr>raw_count = 2, raw_last = JStr ''2024-02-11T08:00:00Z''\<rparr>)],
             [Posted (prs_request ''acme'' ''api'' JNull)])
   \<and> list_all (\<lambda>x. 1 \<le> raw_count (snd x) \<and> raw_last (snd x) \<noteq> JNull)
        [(JStr ''alice'', \<lparr>raw_count = 2, raw_last = JStr ''2024-01-05T09:30:00Z''\<rparr>),
         (JStr ''bob'', \<lparr>raw_count = 1, raw_last = JStr ''2024-02-01T08:00:00Z''\<rparr>),
         (JStr ''carol'', \<lparr>raw_count = 2, raw_last = JStr ''2024-02-11T08:00:00Z''\<rparr>)]"
proof -
  let ?c = "cursor_server [(JNull, commits_result
        [(Some ''alice'', ''2024-01-02T10:00:00Z''), (None, ''2024-01-03T10:00:00Z''),
         (Some ''alice'', ''2024-01-05T09:30:00Z'')] False JNull)]"
  let ?i = "cursor_server [(JNull, created_result ''issues''
        [(Some ''bob'', ''2024-02-01T08:00:00Z''), (None, ''2024-02-02T08:00:00Z'')] False JNull)]"
  let ?p = "cursor_server [(JNull, created_result ''pullRequests''
        [(Some ''carol'', ''2024-02-11T08:00:00Z''), (Some ''carol'', ''2024-02-10T08:00:00Z'')]
        False JNull)]"
  have hc: "\<forall>tr req status body. ?c tr req = Response status (Some body) \<longrightarrow> dated body"
    by (auto simp: cursor_server_def ok_def commits_result_def commit_edge_json_def author_json_def
        page_info_def split: request.splits option.splits if_splits)
  have hi: "\<forall>tr req status body. ?i tr req = Response status (Some body) \<longrightarrow> dated body"
    by (auto simp: cursor_server_def ok_def created_result_def created_node_json_def author_json_def
        page_info_def split: request.splits option.splits if_splits)
  have hp: "\<forall>tr req status body. ?p tr req = Response status (Some body) \<longrightarrow> dated body"
    by (auto simp: cursor_server_def ok_def created_result_def created_node_json_def author_json_def
        page_info_def split: request.splits option.splits if_splits)
  have c: "get_commit_activity ?c ''acme'' ''api'' ''main'' []
     = Some (Inr [(JStr ''alice'', \<lparr>raw_count = 2, raw_last = JStr ''2024-01-05T09:30:00Z''\<rparr>)],
             [Posted (commits_request ''acme'' ''api'' ''main'' JNull)])"
    by (simp add: get_commit_activity_def paginate.simps run_query_ok cursor_server_def
        commits_request_def get_commit_activity_page_result[of "[]", unfolded as_received_Nil]
        record_all_def record_activity_def as_received_def entry_as_received_def
        json_of_timestamp_def)
  have i: "get_issue_activity ?i ''acme'' ''api'' []
     = Some (Inr [(JStr ''bob'', \<lparr>raw_count = 1, raw_last = JStr ''2024-02-01T08:00:00Z''\<rparr>)],
             [Posted (issues_request ''acme'' ''api'' JNull)])"
    by (simp add: get_issue_activity_def get_issue_activity_page_def paginate.simps run_query_ok
        cursor_server_def issues_request_def created_page_result[of _ "[]", unfolded as_received_Nil]
        record_all_def record_activity_def as_received_def entry_as_received_def
        json_of_timestamp_def)
  have p: "get_pr_activity ?p ''acme'' ''api'' []
     = Some (Inr [(JStr ''carol'', \<lparr>raw_count = 2, raw_last = JStr ''2024-02-11T08:00:00Z''\<rparr>)],
             [Posted (prs_request ''acme'' ''api'' JNull)])"
    by (simp add: get_pr_activity_def get_pr_activity_page_def paginate.simps run_query_ok
        cursor_server_def prs_request_def created_page_result[of _ "[]", unfolded as_received_Nil]
        record_all_def record_activity_def as_received_def entry_as_received_def
        json_of_timestamp_def)
  have "\<forall>(login, e) \<in> set [(JStr ''alice'', \<lparr>raw_count = 2, raw_last = JStr ''2024-01-05T09:30:00Z''\<rparr>)].
          1 \<le> raw_count e \<and> raw_last e \<noteq> JNull"
    using c feed_entries_counted_and_dated[OF hc, of "''acme''" "''api''" "''main''" "[]"] by blast
  moreover have "\<forall>(login, e) \<in> set [(JStr ''bob'', \<lparr>raw_count = 1, raw_last = JStr ''2024-02-01T08:00:00Z''\<rparr>)].
          1 \<le> raw_count e \<and> raw_last e \<noteq> JNull"
    using i feed_entries_counted_and_dated[OF hi, of "''acme''" "''api''" "''main''" "[]"] by blast
  moreover have "\<forall>(login, e) \<in> set [(JStr ''carol'', \<lparr>raw_count = 2, raw_last = JStr ''2024-02-11T08:00:00Z''\<rparr>)].
          1 \<le> raw_count e \<and> raw_last e \<noteq> JNull"
    using p feed_entries_counted_and_dated[OF hp, of "''acme''" "''api''" "''main''" "[]"] by blast
  ultimately show ?thesis
    using c i p by simp
qed

text \<open>
  The feed functions do not test the timestamp they read. On a response with a \<open>null\<close>
  \<open>committedDate\<close> the entry is created and counted, and \<open>later(None, None)\<close>
  leaves its last timestamp \<open>None\<close>.
\<close>

lemma null_timestamp_kept:
  "get_commit_activity
     (cursor_server [(JNull,
        JObj [(''repository'', JObj [(''ref'', JObj [(''target'', JObj [(''history'',
          JObj [(''pageInfo'', page_info False JNull),
                (''edges'', JArr [JObj [(''node'',
                   JObj [(''committedDate'', JNull),
                         (''author'', JObj [(''user'', JObj [(''login'', JStr ''alice'')])])])]])])])])])])])
     ''acme'' ''api'' ''main'' []
   = Some (Inr [(JStr ''alice'', \<lparr>raw_count = 1, raw_last = JNull\<rparr>)],
           [Posted (commits_request ''acme'' ''api'' ''main'' JNull)])"
  by (simp add: get_commit_activity_def paginate.simps run_query_ok cursor_server_def
      commits_request_def get_commit_activity_page_def page_info_def commit_edge_def
      record_entry_def later_value_def)

section \<open>Properties of the aggregation\<close>

lemma stamps_of_simps [simp]:
  "stamps_of u [] = []"
  "stamps_of u ((l, t) # rs) = (if l = u then t # stamps_of u rs else stamps_of u rs)"
  "stamps_of u (xs @ ys) = stamps_of u xs @ stamps_of u ys"
  by (auto simp: stamps_of_def)

lemma stamps_of_concat: "stamps_of u (concat xss) = concat (map (stamps_of u) xss)"
  by (induction xss) auto

lemma latest_Cons: "latest (t # ts) = (if ts = [] then Some t else later (Some t) (latest ts))"
  by (simp add: latest_def later_Some_Some del: later.simps)

lemma latest_append:
  "a \<noteq> [] \<Longrightarrow> b \<noteq> [] \<Longrightarrow> latest (a @ b) = later (latest a) (latest b)"
  by (simp add: latest_def later_Some_Some Max_Un del: later.simps)

lemma map_of_record_all:
  "map_of (record_all ua recs) u =
     (if stamps_of u recs = [] then map_of ua u
      else Some \<lparr>ar_count = (case map_of ua u of None \<Rightarrow> 0 | Some e \<Rightarrow> ar_count e)
                              + int (length (stamps_of u recs)),
                 ar_last = later (case map_of ua u of None \<Rightarrow> None | Some e \<Rightarrow> ar_last e)
                              (latest (stamps_of u recs))\<rparr>)"
proof (induction recs arbitrary: ua)
  case Nil
  then show ?case by (simp add: record_all_def)
next
  case (Cons r recs)
  obtain l t where r: "r = (l, t)" by (cases r)
  have step: "record_all ua (r # recs) = record_all (record_activity ua l t) recs"
    by (simp add: record_all_def r)
  show ?case
  proof (cases "l = u")
    case False
    then show ?thesis
      unfolding step Cons.IH by (simp add: r map_of_record_activity del: later.simps)
  next
    case True
    show ?thesis
    proof (cases "stamps_of u recs = []")
      case e: True
      show ?thesis
        unfolding step Cons.IH using True e
        by (cases "map_of ua u") (simp_all add: r map_of_record_activity latest_Cons later_None_left del: later.simps)
    next
      case ne: False
      show ?thesis
        unfolding step Cons.IH using True ne
        by (cases "map_of ua u")
          (simp_all add: r map_of_record_activity latest_Cons later_assoc later_None_left del: later.simps)
    qed
  qed
qed

lemma foldl_foldl_concat: "foldl (foldl f) a xss = foldl f a (concat xss)"
  by (induction xss arbitrary: a) auto

lemma feed_activity_record_all: "feed_activity pages = record_all [] (concat pages)"
  by (simp add: feed_activity_def record_all_def foldl_foldl_concat)

lemma map_of_feed_activity:
  "map_of (feed_activity pages) u =
     (if stamps_of u (concat pages) = [] then None
      else Some \<lparr>ar_count = int (length (stamps_of u (concat pages))),
                 ar_last = latest (stamps_of u (concat pages))\<rparr>)"
  by (simp add: feed_activity_record_all map_of_record_all later_None_left del: later.simps)

lemma distinct_record_all: "distinct (map fst ua) \<Longrightarrow> distinct (map fst (record_all ua recs))"
  by (induction recs arbitrary: ua) (auto simp: record_all_def distinct_record_activity)

lemma distinct_feed_activity: "distinct (map fst (feed_activity pages))"
  by (simp add: feed_activity_record_all distinct_record_all)

lemma map_entry_twice:
  "AList.map_entry k g (AList.map_entry k f xs) = AList.map_entry k (\<lambda>v. g (f v)) xs"
  by (induction xs) auto

lemma map_of_ensure_summary:
  "map_of (ensure_summary ra u) =
     (map_of ra)(u \<mapsto> (case map_of ra u of None \<Rightarrow> empty_summary | Some s \<Rightarrow> s))"
  by (rule ext) (auto simp: ensure_summary_def update_conv' split: option.splits)

lemma map_of_merge_step:
  "map_of (AList.map_entry k (\<lambda>s. g s d) (ensure_summary ra k)) =
     (map_of ra)(k \<mapsto> g (case map_of ra k of None \<Rightarrow> empty_summary | Some s \<Rightarrow> s) d)"
  by (rule ext) (simp add: map_of_map_entry map_of_ensure_summary)

lemma map_of_merge_fold:
  assumes "distinct (map fst feed)"
  shows "map_of (foldl (\<lambda>ra (user, data).
                   AList.map_entry user (\<lambda>s. g s data) (ensure_summary ra user)) ra feed) u =
     (case map_of feed u of
        None \<Rightarrow> map_of ra u
      | Some d \<Rightarrow> Some (g (case map_of ra u of None \<Rightarrow> empty_summary | Some s \<Rightarrow> s) d))"
  using assms
proof (induction feed arbitrary: ra)
  case Nil
  then show ?case by simp
next
  case (Cons p feed)
  obtain k d where p: "p = (k, d)" by (cases p)
  from Cons.prems p have k: "map_of feed k = None" and dist: "distinct (map fst feed)"
    by (auto simp: map_of_eq_None_iff)
  show ?case
    using Cons.IH[OF dist] k by (auto simp: p map_of_merge_step split: option.splits)
qed

lemma map_of_merge_commits:
  "distinct (map fst feed) \<Longrightarrow>
   map_of (merge_commits ra feed) u =
     (case map_of feed u of None \<Rightarrow> map_of ra u | Some d \<Rightarrow> Some (with_commits (summary_of ra u) d))"
  using map_of_merge_fold[of feed with_commits ra u]
  by (simp add: merge_commits_def map_entry_twice with_commits_def summary_of_def del: later.simps
      split: option.splits)

lemma map_of_merge_issues:
  "distinct (map fst feed) \<Longrightarrow>
   map_of (merge_issues ra feed) u =
     (case map_of feed u of None \<Rightarrow> map_of ra u | Some d \<Rightarrow> Some (with_issues (summary_of ra u) d))"
  using map_of_merge_fold[of feed with_issues ra u]
  by (simp add: merge_issues_def map_entry_twice with_issues_def summary_of_def del: later.simps
      split: option.splits)

lemma map_of_merge_prs:
  "distinct (map fst feed) \<Longrightarrow>
   map_of (merge_prs ra feed) u =
     (case map_of feed u of None \<Rightarrow> map_of ra u | Some d \<Rightarrow> Some (with_prs (summary_of ra u) d))"
  using map_of_merge_fold[of feed with_prs ra u]
  by (simp add: merge_prs_def map_entry_twice with_prs_def summary_of_def del: later.simps
      split: option.splits)

lemma map_of_feed_tally:
  "map_of (feed_activity pages) u =
     (if stamps_of u (concat pages) = [] then None else Some (tally (stamps_of u (concat pages))))"
  by (simp add: map_of_feed_activity tally_def)

lemma with_commits_twice:
  "a \<noteq> [] \<Longrightarrow> b \<noteq> [] \<Longrightarrow>
   with_commits (with_commits s (tally a)) (tally b) = with_commits s (tally (a @ b))"
  by (simp add: with_commits_def tally_def latest_append later_assoc del: later.simps)

lemma map_of_branches:
  "map_of (foldl merge_commits ra (map feed_activity branch_pages)) u =
     (if stamps_of u (concat (concat branch_pages)) = [] then map_of ra u
      else Some (with_commits (summary_of ra u) (tally (stamps_of u (concat (concat branch_pages))))))"
proof (induction branch_pages arbitrary: ra)
  case Nil
  then show ?case by simp
next
  case (Cons pages rest)
  let ?ra = "merge_commits ra (feed_activity pages)"
  let ?a = "stamps_of u (concat pages)"
  let ?b = "stamps_of u (concat (concat rest))"
  have m: "map_of ?ra u = (if ?a = [] then map_of ra u
                           else Some (with_commits (summary_of ra u) (tally ?a)))"
    by (simp add: map_of_merge_commits distinct_feed_activity map_of_feed_tally)
  have s: "?a \<noteq> [] \<Longrightarrow> summary_of ?ra u = with_commits (summary_of ra u) (tally ?a)"
    using m by (simp add: summary_of_def)
  have s0: "?a = [] \<Longrightarrow> summary_of ?ra u = summary_of ra u"
    using m by (simp add: summary_of_def)
  show ?case
    using Cons.IH[of ?ra] m s s0
    by (cases "?a = []"; cases "?b = []") (simp_all add: with_commits_twice)
qed

lemma aggregate_map_of:
  "map_of (aggregate (map feed_activity branch_pages) (feed_activity issue_pages)
             (feed_activity pr_pages)) user =
     (let cs = stamps_of user (concat (concat branch_pages));
          is = stamps_of user (concat issue_pages);
          ps = stamps_of user (concat pr_pages)
      in if cs = [] \<and> is = [] \<and> ps = [] then None
         else Some \<lparr>commits = int (length cs), issues = int (length is), prs = int (length ps),
                    last_commit = latest cs, last_issue = latest is, last_pr = latest ps\<rparr>)"
proof -
  let ?cs = "stamps_of user (concat (concat branch_pages))"
  let ?is = "stamps_of user (concat issue_pages)"
  let ?ps = "stamps_of user (concat pr_pages)"
  let ?c = "foldl merge_commits [] (map feed_activity branch_pages)"
  let ?i = "merge_issues ?c (feed_activity issue_pages)"
  have c: "map_of ?c user = (if ?cs = [] then None else Some (with_commits empty_summary (tally ?cs)))"
    by (simp add: map_of_branches summary_of_def)
  have i: "map_of ?i user =
             (if ?is = [] then map_of ?c user else Some (with_issues (summary_of ?c user) (tally ?is)))"
    by (simp add: map_of_merge_issues distinct_feed_activity map_of_feed_tally)
  have p: "map_of (merge_prs ?i (feed_activity pr_pages)) user =
             (if ?ps = [] then map_of ?i user else Some (with_prs (summary_of ?i user) (tally ?ps)))"
    by (simp add: map_of_merge_prs distinct_feed_activity map_of_feed_tally)
  have l0: "latest [] = None" by (simp add: latest_def)
  show ?thesis
    unfolding aggregate_def Let_def p
    by (cases "?cs = []"; cases "?is = []"; cases "?ps = []")
       (simp_all add: i c summary_of_def with_commits_def with_issues_def with_prs_def tally_def
          empty_summary_def l0 later_None_left del: later.simps)
qed

lemma stamps_of_mset:
  assumes "mset xs = mset ys"
  shows "length (stamps_of u xs) = length (stamps_of u ys) \<and> latest (stamps_of u xs) = latest (stamps_of u ys)"
proof -
  have "mset (stamps_of u xs) = mset (stamps_of u ys)"
    using assms by (simp add: stamps_of_def)
  then have "length (stamps_of u xs) = length (stamps_of u ys)"
    and "set (stamps_of u xs) = set (stamps_of u ys)"
    by (auto dest: mset_eq_length mset_eq_setD)
  then show ?thesis by (auto simp: latest_def)
qed

text \<open>
  C1. For every user of a repository, however the records of a category are spread over
  branches and pages and in whatever order they come, the summary that \<open>main\<close> builds
  counts exactly the user's records of that category, and its last timestamp is the
  maximum of their timestamps; a user with no record at all has no summary. Each record
  adds exactly 1 to the count of its login, the entry being created on the first one. Two
  runs that see the same records, grouped and ordered differently, give the same summary.
\<close>

theorem aggregate_counts_and_latest:
  "map_of (aggregate (map feed_activity branch_pages) (feed_activity issue_pages)
             (feed_activity pr_pages)) user =
     (let cs = stamps_of user (concat (concat branch_pages));
          is = stamps_of user (concat issue_pages);
          ps = stamps_of user (concat pr_pages)
      in if cs = [] \<and> is = [] \<and> ps = [] then None
         else Some \<lparr>commits = int (length cs), issues = int (length is), prs = int (length ps),
                    last_commit = latest cs, last_issue = latest is, last_pr = latest ps\<rparr>)
   \<and> map_of (record_activity ua login ts) login =
       Some \<lparr>ar_count = (case map_of ua login of None \<Rightarrow> 0 | Some e \<Rightarrow> ar_count e) + 1,
             ar_last = later (case map_of ua login of None \<Rightarrow> None | Some e \<Rightarrow> ar_last e) (Some ts)\<rparr>
   \<and> (mset (concat (concat branch_pages')) = mset (concat (concat branch_pages))
        \<and> mset (concat issue_pages') = mset (concat issue_pages)
        \<and> mset (concat pr_pages') = mset (concat pr_pages)
      \<longrightarrow> map_of (aggregate (map feed_activity branch_pages') (feed_activity issue_pages')
                      (feed_activity pr_pages')) user
          = map_of (aggregate (map feed_activity branch_pages) (feed_activity issue_pages)
                      (feed_activity pr_pages)) user)"
proof (intro conjI impI)
  show "map_of (record_activity ua login ts) login =
       Some \<lparr>ar_count = (case map_of ua login of None \<Rightarrow> 0 | Some e \<Rightarrow> ar_count e) + 1,
             ar_last = later (case map_of ua login of None \<Rightarrow> None | Some e \<Rightarrow> ar_last e) (Some ts)\<rparr>"
    by (simp add: map_of_record_activity later_None_left del: later.simps split: option.splits)
next
  assume "mset (concat (concat branch_pages')) = mset (concat (concat branch_pages))
        \<and> mset (concat issue_pages') = mset (concat issue_pages)
        \<and> mset (concat pr_pages') = mset (concat pr_pages)"
  then have "length (stamps_of user (concat (concat branch_pages')))
               = length (stamps_of user (concat (concat branch_pages)))"
    "latest (stamps_of user (concat (concat branch_pages')))
               = latest (stamps_of user (concat (concat branch_pages)))"
    "length (stamps_of user (concat issue_pages')) = length (stamps_of user (concat issue_pages))"
    "latest (stamps_of user (concat issue_pages')) = latest (stamps_of user (concat issue_pages))"
    "length (stamps_of user (concat pr_pages')) = length (stamps_of user (concat pr_pages))"
    "latest (stamps_of user (concat pr_pages')) = latest (stamps_of user (concat pr_pages))"
    using stamps_of_mset by blast+
  then show "map_of (aggregate (map feed_activity branch_pages') (feed_activity issue_pages')
                      (feed_activity pr_pages')) user
          = map_of (aggregate (map feed_activity branch_pages) (feed_activity issue_pages)
                      (feed_activity pr_pages)) user"
    unfolding aggregate_map_of Let_def by (simp only: length_0_conv[symmetric])
qed (rule aggregate_map_of)

theorem aggregate_counts_and_latest_witness:
  "map_of (aggregate
      (map feed_activity
        [[[(''alice'', ''2024-01-02T10:00:00Z''), (''bob'', ''2024-01-03T10:00:00Z'')],
          [(''alice'', ''2024-01-05T09:30:00Z'')]]])
      (feed_activity [[(''bob'', ''2024-02-01T08:00:00Z'')]]) (feed_activity [])) ''alice''
   = Some \<lparr>commits = 2, issues = 0, prs = 0, last_commit = Some ''2024-01-05T09:30:00Z'',
           last_issue = None, last_pr = None\<rparr>
   \<and> map_of (aggregate
      (map feed_activity
        [[[(''alice'', ''2024-01-05T09:30:00Z'')]],
         [[(''bob'', ''2024-01-03T10:00:00Z''), (''alice'', ''2024-01-02T10:00:00Z'')]]])
      (feed_activity [[], [(''bob'', ''2024-02-01T08:00:00Z'')]]) (feed_activity [])) ''alice''
   = Some \<lparr>commits = 2, issues = 0, prs = 0, last_commit = Some ''2024-01-05T09:30:00Z'',
           last_issue = None, last_pr = None\<rparr>"
proof -
  let ?bp = "[[[(''alice'', ''2024-01-02T10:00:00Z''), (''bob'', ''2024-01-03T10:00:00Z'')],
          [(''alice'', ''2024-01-05T09:30:00Z'')]]]"
  let ?bp' = "[[[(''alice'', ''2024-01-05T09:30:00Z'')]],
         [[(''bob'', ''2024-01-03T10:00:00Z''), (''alice'', ''2024-01-02T10:00:00Z'')]]]"
  let ?ip = "[[(''bob'', ''2024-02-01T08:00:00Z'')]]"
  let ?ip' = "[[], [(''bob'', ''2024-02-01T08:00:00Z'')]]"
  have m: "mset (concat (concat ?bp')) = mset (concat (concat ?bp))
        \<and> mset (concat ?ip') = mset (concat ?ip)
        \<and> mset (concat ([] :: (string \<times> string) list list)) = mset (concat [])"
    by simp
  note t = aggregate_counts_and_latest[of ?bp ?ip "[]" "''alice''" "[]" "''alice''" "[]" ?bp' ?ip' "[]"]
  have v: "map_of (aggregate (map feed_activity ?bp) (feed_activity ?ip) (feed_activity [])) ''alice''
     = Some \<lparr>commits = 2, issues = 0, prs = 0, last_commit = Some ''2024-01-05T09:30:00Z'',
           last_issue = None, last_pr = None\<rparr>"
    using t by (simp add: latest_def)
  show ?thesis
    using t m v by simp
qed

section \<open>Properties of the status classification\<close>

lemma is_digit_facts:
  assumes "is_digit c k"
  shows "digit_val c = Some (int k)" "c \<noteq> CHR ''Z''" "c \<noteq> CHR ''+''" "c \<noteq> CHR ''-''"
proof -
  from assms have c: "c = char_of (48 + k)" and k: "k < 10"
    by (simp_all add: is_digit_def digit_char_def)
  have o: "(of_char c :: nat) = 48 + k" using k by (simp add: c)
  show "digit_val c = Some (int k)" using k by (simp add: digit_val_def o)
  show "c \<noteq> CHR ''Z''" using o k by auto
  show "c \<noteq> CHR ''+''" using o k by auto
  show "c \<noteq> CHR ''-''" using o k by auto
qed

lemma is_digit_div_mod:
  "is_digit (digit_char (n mod 10)) (n mod 10)"
  "n < 100 \<Longrightarrow> is_digit (digit_char (n div 10)) (n div 10)"
  "is_digit (digit_char (n div 10 mod 10)) (n div 10 mod 10)"
  "is_digit (digit_char (n div 100 mod 10)) (n div 100 mod 10)"
  "n < 10000 \<Longrightarrow> is_digit (digit_char (n div 1000)) (n div 1000)"
  by (simp_all add: is_digit_def)


lemma number2: "is_digit a x \<Longrightarrow> is_digit b y \<Longrightarrow> number [a, b] = Some (int (10 * x + y))"
  by (simp add: number_def is_digit_facts)

lemma number4:
  "is_digit a w \<Longrightarrow> is_digit b x \<Longrightarrow> is_digit c y \<Longrightarrow> is_digit d z \<Longrightarrow>
   number [a, b, c, d] = Some (int (1000 * w + 100 * x + 10 * y + z))"
  by (simp add: number_def is_digit_facts)

lemma number_00: "number ''00'' = Some 0"
  by (simp add: number_def digit_val_def)

lemma replace_Z_digits:
  assumes "is_digit y1 ky1" "is_digit y2 ky2" "is_digit y3 ky3" "is_digit y4 ky4"
    and "is_digit m1 km1" "is_digit m2 km2" "is_digit d1 kd1" "is_digit d2 kd2"
    and "is_digit h1 kh1" "is_digit h2 kh2" "is_digit n1 kn1" "is_digit n2 kn2"
    and "is_digit s1 ks1" "is_digit s2 ks2"
  shows "replace_Z ([y1, y2, y3, y4, CHR ''-'', m1, m2, CHR ''-'', d1, d2, CHR ''T'',
            h1, h2, CHR '':'', n1, n2, CHR '':'', s1, s2] @ ''Z'')
          = [y1, y2, y3, y4, CHR ''-'', m1, m2, CHR ''-'', d1, d2, CHR ''T'',
            h1, h2, CHR '':'', n1, n2, CHR '':'', s1, s2] @ ''+00:00''"
proof -
  note d = assms[THEN is_digit_facts(2)]
  show ?thesis by (simp add: replace_Z_def d)
qed

lemma parse_date_digits:
  assumes "is_digit y1 ky1" "is_digit y2 ky2" "is_digit y3 ky3" "is_digit y4 ky4"
    and "is_digit m1 km1" "is_digit m2 km2" "is_digit d1 kd1" "is_digit d2 kd2"
  shows "parse_isoformat_date [y1, y2, y3, y4, CHR ''-'', m1, m2, CHR ''-'', d1, d2]
        = Some (int (1000 * ky1 + 100 * ky2 + 10 * ky3 + ky4), int (10 * km1 + km2), int (10 * kd1 + kd2))"
    using number4[OF assms(1-4)] number2[OF assms(5,6)] number2[OF assms(7,8)]
    by (simp add: parse_isoformat_date_def)

lemma split_tz_digits:
  assumes "is_digit h1 kh1" "is_digit h2 kh2" "is_digit n1 kn1" "is_digit n2 kn2"
    and "is_digit s1 ks1" "is_digit s2 ks2"
  shows "split_tz ([h1, h2, CHR '':'', n1, n2, CHR '':'', s1, s2] @ ''+00:00'')
        = ([h1, h2, CHR '':'', n1, n2, CHR '':'', s1, s2], Some (CHR ''+'', ''00:00''))"
proof -
  note d = assms[THEN is_digit_facts(3)] assms[THEN is_digit_facts(4)]
  show ?thesis by (simp add: d)
qed

lemma parse_time_digits:
  assumes "is_digit h1 kh1" "is_digit h2 kh2" "is_digit n1 kn1" "is_digit n2 kn2"
    and "is_digit s1 ks1" "is_digit s2 ks2"
  shows "parse_hh_mm_ss_ff [h1, h2, CHR '':'', n1, n2, CHR '':'', s1, s2]
        = Some (int (10 * kh1 + kh2), int (10 * kn1 + kn2), int (10 * ks1 + ks2), 0)"
    using number2[OF assms(1,2)] number2[OF assms(3,4)] number2[OF assms(5,6)]
    by (simp add: parse_hh_mm_ss_ff_def)

lemma parse_time_zero: "parse_hh_mm_ss_ff ''00:00'' = Some (0, 0, 0, 0)"
    by (simp add: parse_hh_mm_ss_ff_def number_00)

lemma documented_fromisoformat_digits:
  assumes "is_digit y1 ky1" "is_digit y2 ky2" "is_digit y3 ky3" "is_digit y4 ky4"
    and "is_digit m1 km1" "is_digit m2 km2" "is_digit d1 kd1" "is_digit d2 kd2"
    and "is_digit h1 kh1" "is_digit h2 kh2" "is_digit n1 kn1" "is_digit n2 kn2"
    and "is_digit s1 ks1" "is_digit s2 ks2"
  shows "documented_fromisoformat
           ([y1, y2, y3, y4, CHR ''-'', m1, m2, CHR ''-'', d1, d2, CHR ''T'',
            h1, h2, CHR '':'', n1, n2, CHR '':'', s1, s2] @ ''+00:00'')
         = new_datetime (int (1000 * ky1 + 100 * ky2 + 10 * ky3 + ky4)) (int (10 * km1 + km2))
             (int (10 * kd1 + kd2)) (int (10 * kh1 + kh2)) (int (10 * kn1 + kn2))
             (int (10 * ks1 + ks2)) 0 (Some 0)"
proof -
  let ?s = "[y1, y2, y3, y4, CHR ''-'', m1, m2, CHR ''-'', d1, d2, CHR ''T'',
            h1, h2, CHR '':'', n1, n2, CHR '':'', s1, s2] @ ''+00:00''"
  have t10: "take 10 ?s = [y1, y2, y3, y4, CHR ''-'', m1, m2, CHR ''-'', d1, d2]" by simp
  have d11: "drop 11 ?s = [h1, h2, CHR '':'', n1, n2, CHR '':'', s1, s2] @ ''+00:00''" by simp
  have len: "length ?s \<noteq> 10" by simp
  have tzl: "length ''00:00'' \<in> {5, 8, 15::nat}" by simp
  show ?thesis
    unfolding documented_fromisoformat_def t10 d11 parse_date_digits[OF assms(1-8)]
      split_tz_digits[OF assms(9-14)] parse_time_digits[OF assms(9-14)] parse_time_zero
    using len tzl by (simp add: day_us_def parse_time_digits[OF assms(9-14)] parse_time_zero)
qed

lemma digits4:
  "a = 10 * b + d \<Longrightarrow> b = 10 * c + e \<Longrightarrow> c = 10 * f + g \<Longrightarrow> 1000 * f + 100 * g + 10 * e + d = (a::nat)"
  by simp

lemma pad4_value:
  "1000 * ((year::nat) div 1000) + 100 * (year div 100 mod 10) + 10 * (year div 10 mod 10)
     + year mod 10 = year"
proof -
  have h: "year div 10 div 10 = year div 100" "year div 100 div 10 = year div 1000"
    by (simp_all add: div_mult2_eq[symmetric])
  have a: "year = 10 * (year div 10) + year mod 10" by simp
  have b: "year div 10 = 10 * (year div 100) + year div 10 mod 10"
    using div_mult_mod_eq[of "year div 10" 10] by (simp only: h mult.commute)
  have c: "year div 100 = 10 * (year div 1000) + year div 100 mod 10"
    using div_mult_mod_eq[of "year div 100" 10] by (simp only: h mult.commute)
  show ?thesis by (rule digits4[OF a b c])
qed

lemma pad2_value: "10 * ((n::nat) div 10) + n mod 10 = n"
  by simp

lemma iso_chars:
  "iso year month day hour minute second =
      [digit_char (year div 1000), digit_char (year div 100 mod 10),
       digit_char (year div 10 mod 10), digit_char (year mod 10), CHR ''-'',
       digit_char (month div 10), digit_char (month mod 10), CHR ''-'',
       digit_char (day div 10), digit_char (day mod 10), CHR ''T'',
       digit_char (hour div 10), digit_char (hour mod 10), CHR '':'',
       digit_char (minute div 10), digit_char (minute mod 10), CHR '':'',
       digit_char (second div 10), digit_char (second mod 10)]"
  by (simp add: iso_def pad2_def pad4_def)

lemma days_in_month_le: "days_in_month y m \<le> 31"
  by (simp add: days_in_month_def)

lemma valid_civil_bounds:
  assumes "valid_civil year month day hour minute second"
  shows "year < 10000" "month < 100" "day < 100" "hour < 100" "minute < 100" "second < 100"
proof -
  from assms have d: "int day \<le> 31"
    using days_in_month_le[of "int year" "int month"] by (simp add: valid_civil_def)
  from assms d show "year < 10000" "month < 100" "day < 100" "hour < 100" "minute < 100"
    "second < 100"
    by (simp_all add: valid_civil_def)
qed

lemma new_datetime_valid:
  "valid_civil year month day hour minute second \<Longrightarrow>
   new_datetime (int year) (int month) (int day) (int hour) (int minute) (int second) 0 (Some 0)
     = Inr \<lparr>dt_fields = civil_us year month day hour minute second, dt_utcoffset = Some 0\<rparr>"
  by (simp add: valid_civil_def new_datetime_def civil_us_def)

lemma documented_reads_utc:
  assumes "valid_civil year month day hour minute second"
  shows "reads_utc documented_fromisoformat year month day hour minute second"
proof -
  note b = valid_civil_bounds[OF assms]
  have "documented_fromisoformat (iso year month day hour minute second @ ''+00:00'')
        = new_datetime (int year) (int month) (int day) (int hour) (int minute) (int second)
             0 (Some 0)"
    unfolding iso_chars
    by (subst documented_fromisoformat_digits[OF is_digit_div_mod(5)[OF b(1)] is_digit_div_mod(4)
        is_digit_div_mod(3) is_digit_div_mod(1)
        is_digit_div_mod(2)[OF b(2)] is_digit_div_mod(1)
        is_digit_div_mod(2)[OF b(3)] is_digit_div_mod(1)
        is_digit_div_mod(2)[OF b(4)] is_digit_div_mod(1)
        is_digit_div_mod(2)[OF b(5)] is_digit_div_mod(1)
        is_digit_div_mod(2)[OF b(6)] is_digit_div_mod(1)])
      (simp only: pad4_value pad2_value)
  then show ?thesis
    by (simp only: reads_utc_def new_datetime_valid[OF assms])
qed

lemma replace_Z_iso:
  assumes "valid_civil year month day hour minute second"
  shows "replace_Z (iso year month day hour minute second @ ''Z'')
         = iso year month day hour minute second @ ''+00:00''"
proof -
  note b = valid_civil_bounds[OF assms]
  show ?thesis
    unfolding iso_chars
    by (rule replace_Z_digits[OF is_digit_div_mod(5)[OF b(1)] is_digit_div_mod(4)
        is_digit_div_mod(3) is_digit_div_mod(1)
        is_digit_div_mod(2)[OF b(2)] is_digit_div_mod(1)
        is_digit_div_mod(2)[OF b(3)] is_digit_div_mod(1)
        is_digit_div_mod(2)[OF b(4)] is_digit_div_mod(1)
        is_digit_div_mod(2)[OF b(5)] is_digit_div_mod(1)
        is_digit_div_mod(2)[OF b(6)] is_digit_div_mod(1)])
qed

lemma classify_iso:
  assumes "valid_civil year month day hour minute second"
    and "reads_utc fromisoformat year month day hour minute second"
  shows "classify fromisoformat \<lparr>dt_fields = c, dt_utcoffset = Some 0\<rparr>
           (Some (iso year month day hour minute second @ ''Z''))
         = Inr (iso year month day hour minute second @ ''Z'',
                if c \<le> civil_us year month day hour minute second then ''Active'' else ''Inactive'')"
proof -
  have r: "fromisoformat (iso year month day hour minute second @ ''+00:00'')
        = Inr \<lparr>dt_fields = civil_us year month day hour minute second, dt_utcoffset = Some 0\<rparr>"
    using assms(2) by (simp only: reads_utc_def)
  show ?thesis
    by (simp add: replace_Z_iso[OF assms(1)] r)
qed

lemma civil_us_examples:
  "civil_us 2024 3 1 0 0 0 = 63844848000000000"
  "civil_us 2024 1 1 0 0 0 = 63839664000000000"
  "civil_us 2023 12 31 0 0 0 = 63839577600000000"
  "civil_us 2023 12 31 23 59 59 = 63839663999000000"
  by (simp_all add: civil_us_def days_before_year_def days_before_month_def days_in_month_def
      is_leap_def day_us_def upto.simps)

lemma iso_examples:
  "iso 2024 1 1 0 0 0 = ''2024-01-01T00:00:00''"
  "iso 2023 12 31 0 0 0 = ''2023-12-31T00:00:00''"
  "iso 2023 12 31 23 59 59 = ''2023-12-31T23:59:59''"
  by code_simp+

lemma valid_civil_examples:
  "valid_civil 2024 1 1 0 0 0" "valid_civil 2023 12 31 0 0 0" "valid_civil 2023 12 31 23 59 59"
  by (simp_all add: valid_civil_def days_in_month_def is_leap_def)

text \<open>
  C3. A row whose last activity is absent shows \<open>N/A\<close> and is \<open>Inactive\<close>. A last
  activity \<open>YYYY-MM-DDTHH:MM:SSZ\<close>, which the library reads, once its \<open>Z\<close> is
  replaced by \<open>+00:00\<close>, as that date and time at offset 0, is \<open>Active\<close> exactly
  when the instant it denotes is not earlier than the cutoff, which is \<open>now\<close> less
  \<open>threshold_days\<close> days: a timestamp at the cutoff is \<open>Active\<close>, an earlier one
  \<open>Inactive\<close>.
\<close>

theorem status_classification:
  assumes "valid_civil year month day hour minute second"
    and "reads_utc fromisoformat year month day hour minute second"
    and "- 999999999 \<le> threshold_days" and "threshold_days \<le> 999999999"
    and "0 \<le> now - threshold_days * day_us" and "now - threshold_days * day_us \<le> max_us"
  shows "and_then (cutoff_of now threshold_days) (\<lambda>cutoff. classify fromisoformat cutoff None)
           = Inr (''N/A'', ''Inactive'')
       \<and> and_then (cutoff_of now threshold_days)
            (\<lambda>cutoff. classify fromisoformat cutoff
                        (Some (iso year month day hour minute second @ ''Z'')))
           = Inr (iso year month day hour minute second @ ''Z'',
                  if now - threshold_days * day_us \<le> civil_us year month day hour minute second
                  then ''Active'' else ''Inactive'')"
proof -
  have c: "cutoff_of now threshold_days
             = Inr \<lparr>dt_fields = now - threshold_days * day_us, dt_utcoffset = Some 0\<rparr>"
    using assms(3-6) by (simp add: cutoff_of_def)
  show ?thesis
    unfolding c
    by (simp only: and_then.simps classify.simps(1) classify_iso[OF assms(1,2)] simp_thms)
qed


theorem status_classification_witness:
  "and_then (cutoff_of 63844848000000000 60) (\<lambda>cutoff. classify documented_fromisoformat cutoff None)
     = Inr (''N/A'', ''Inactive'')
   \<and> and_then (cutoff_of 63844848000000000 60)
        (\<lambda>cutoff. classify documented_fromisoformat cutoff (Some ''2024-01-01T00:00:00Z''))
     = Inr (''2024-01-01T00:00:00Z'', ''Active'')
   \<and> and_then (cutoff_of 63844848000000000 60)
        (\<lambda>cutoff. classify documented_fromisoformat cutoff (Some ''2023-12-31T23:59:59Z''))
     = Inr (''2023-12-31T23:59:59Z'', ''Inactive'')
   \<and> and_then (cutoff_of 63844848000000000 60)
        (\<lambda>cutoff. classify documented_fromisoformat cutoff (Some ''2023-12-31T00:00:00Z''))
     = Inr (''2023-12-31T00:00:00Z'', ''Inactive'')
   \<and> civil_us 2024 3 1 0 0 0 = 63844848000000000"
proof -
  have r: "- 999999999 \<le> (60::int)" "(60::int) \<le> 999999999"
    "0 \<le> 63844848000000000 - 60 * day_us" "63844848000000000 - 60 * day_us \<le> max_us"
    by (simp_all add: day_us_def max_us_def)
  note a = status_classification[OF valid_civil_examples(1)
      documented_reads_utc[OF valid_civil_examples(1)] r, unfolded iso_examples civil_us_examples]
  note b = status_classification[OF valid_civil_examples(3)
      documented_reads_utc[OF valid_civil_examples(3)] r, unfolded iso_examples civil_us_examples]
  note c = status_classification[OF valid_civil_examples(2)
      documented_reads_utc[OF valid_civil_examples(2)] r, unfolded iso_examples civil_us_examples]
  show ?thesis
    using a b c civil_us_examples(1) by (simp add: day_us_def)
qed

section \<open>Properties of the report\<close>

lemma write_rows_None:
  "write_rows row xs out = (None, out') \<longleftrightarrow> (\<exists>rows. map row xs = map Inr rows \<and> out' = out @ rows)"
proof (induction xs arbitrary: out)
  case Nil
  then show ?case by auto
next
  case (Cons x xs)
  show ?case
  proof (cases "row x")
    case (Inl e)
    then show ?thesis by auto
  next
    case (Inr r)
    have "(\<exists>rows. map row xs = map Inr rows \<and> out' = (out @ [r]) @ rows)
          \<longleftrightarrow> (\<exists>rows. map row (x # xs) = map Inr rows \<and> out' = out @ rows)"
    proof
      assume "\<exists>rows. map row xs = map Inr rows \<and> out' = (out @ [r]) @ rows"
      then obtain rows where "map row xs = map Inr rows" "out' = (out @ [r]) @ rows" by blast
      with Inr have "map row (x # xs) = map Inr (r # rows) \<and> out' = out @ (r # rows)" by simp
      then show "\<exists>rows. map row (x # xs) = map Inr rows \<and> out' = out @ rows" by blast
    next
      assume "\<exists>rows. map row (x # xs) = map Inr rows \<and> out' = out @ rows"
      then obtain rows where m: "map row (x # xs) = map Inr rows" and f: "out' = out @ rows" by blast
      from m Inr obtain rest where "rows = r # rest" "map row xs = map Inr rest"
        by (cases rows) auto
      with f show "\<exists>rows. map row xs = map Inr rows \<and> out' = (out @ [r]) @ rows" by auto
    qed
    with Inr Cons.IH[of "out @ [r]"] show ?thesis by simp
  qed
qed

lemma report_row_first:
  "report_row fromisoformat cutoff activity user = Inr r \<Longrightarrow> hd r = Str user"
  by (auto simp: report_row_def Let_def and_then_Inr_iff simp del: later.simps)

lemma rows_first:
  "map (report_row fromisoformat cutoff activity) users = map Inr rows \<Longrightarrow> map hd rows = map Str users"
proof (induction users arbitrary: rows)
  case Nil
  then show ?case by simp
next
  case (Cons u users)
  then obtain r rest where "rows = r # rest" "report_row fromisoformat cutoff activity u = Inr r"
    "map (report_row fromisoformat cutoff activity) users = map Inr rest"
    by (cases rows) auto
  with Cons.IH[of rest] show ?case by (simp add: report_row_first)
qed

lemma report_row_silent:
  "map_of activity user = None \<Longrightarrow>
   report_row fromisoformat cutoff activity user
     = Inr [Str user, Num 0, Num 0, Num 0, Str ''N/A'', Str ''Inactive'']"
  by (simp add: report_row_def)

lemma rows_exist:
  "\<forall>u\<in>set users. \<exists>r. row u = Inr r \<Longrightarrow> \<exists>rows. map row users = map Inr rows"
proof (induction users)
  case Nil
  then show ?case by simp
next
  case (Cons u users)
  then obtain r rows where "row u = Inr r" "map row users = map Inr rows" by auto
  then have "map row (u # users) = map Inr (r # rows)" by simp
  then show ?case by blast
qed

lemma roster_example: "sorted_list_of_set {''carol'', ''alice'', ''bob''} = [''alice'', ''bob'', ''carol'']"
  by code_simp

lemma civil_us_more:
  "civil_us 2024 2 20 12 0 0 = 63844027200000000"
  "civil_us 2023 11 5 8 30 0 = 63834769800000000"
  by (simp_all add: civil_us_def days_before_year_def days_before_month_def days_in_month_def
      is_leap_def day_us_def upto.simps)

lemma iso_more:
  "iso 2024 2 20 12 0 0 = ''2024-02-20T12:00:00''"
  "iso 2023 11 5 8 30 0 = ''2023-11-05T08:30:00''"
  by code_simp+

lemma valid_civil_more:
  "valid_civil 2024 2 20 12 0 0" "valid_civil 2023 11 5 8 30 0"
  by (simp_all add: valid_civil_def days_in_month_def is_leap_def)

text \<open>
  C9. The section of a repository in the report, when no row raises, is the two heading
  rows, one row for every member of the roster in the order of the logins, each the row
  of that member, and an empty row; so a login outside the roster has no row. The row of
  a member with no recorded activity has zero counts, \<open>N/A\<close> and \<open>Inactive\<close>. The
  section is written to the end whenever the row of every member can be computed.
\<close>

theorem report_rows_follow_roster:
  assumes "finite all_users"
  shows "(write_repo fromisoformat cutoff all_users (repo_name, activity) out = (None, out') \<longrightarrow>
           (\<exists>rows users.
              out' = out @ [[Str (''Repository: '' @ repo_name)],
                              [Str ''Username'', Str ''Commits'', Str ''Issues'', Str ''PRs'',
                               Str ''Last Activity'', Str ''Status'']] @ rows @ [[]]
              \<and> map Inr rows = map (report_row fromisoformat cutoff activity) users
              \<and> map hd rows = map Str users
              \<and> users = sorted_list_of_set all_users
              \<and> sorted users \<and> distinct users \<and> set users = all_users))
       \<and> (map_of activity user = None \<longrightarrow>
            report_row fromisoformat cutoff activity user
              = Inr [Str user, Num 0, Num 0, Num 0, Str ''N/A'', Str ''Inactive''])
       \<and> ((\<forall>u\<in>all_users. \<exists>r. report_row fromisoformat cutoff activity u = Inr r) \<longrightarrow>
            (\<exists>out'. write_repo fromisoformat cutoff all_users (repo_name, activity) out
                       = (None, out')))"
proof (intro conjI impI)
  let ?users = "sorted_list_of_set all_users"
  let ?head = "[[Str (''Repository: '' @ repo_name)],
                [Str ''Username'', Str ''Commits'', Str ''Issues'', Str ''PRs'',
                 Str ''Last Activity'', Str ''Status'']]"
  assume w: "write_repo fromisoformat cutoff all_users (repo_name, activity) out = (None, out')"
  then obtain out1 where
    f1: "write_rows (report_row fromisoformat cutoff activity) ?users (out @ ?head) = (None, out1)"
    and f': "out' = out1 @ [[]]"
    by (auto simp: write_repo_def split: prod.splits option.splits)
  from f1 obtain rows where
    m: "map (report_row fromisoformat cutoff activity) ?users = map Inr rows"
    and r: "out1 = (out @ ?head) @ rows"
    unfolding write_rows_None by blast
  from m have h: "map hd rows = map Str ?users" by (rule rows_first)
  from assms have s: "sorted ?users" "distinct ?users" "set ?users = all_users" by simp_all
  from f' r m[symmetric] h s
  show "\<exists>rows users.
              out' = out @ [[Str (''Repository: '' @ repo_name)],
                              [Str ''Username'', Str ''Commits'', Str ''Issues'', Str ''PRs'',
                               Str ''Last Activity'', Str ''Status'']] @ rows @ [[]]
              \<and> map Inr rows = map (report_row fromisoformat cutoff activity) users
              \<and> map hd rows = map Str users
              \<and> users = sorted_list_of_set all_users
              \<and> sorted users \<and> distinct users \<and> set users = all_users"
    by (intro exI[of _ rows] exI[of _ ?users]) simp
next
  assume "map_of activity user = None"
  then show "report_row fromisoformat cutoff activity user
              = Inr [Str user, Num 0, Num 0, Num 0, Str ''N/A'', Str ''Inactive'']"
    by (rule report_row_silent)
next
  let ?users = "sorted_list_of_set all_users"
  assume "\<forall>u\<in>all_users. \<exists>r. report_row fromisoformat cutoff activity u = Inr r"
  with assms have "\<forall>u\<in>set ?users. \<exists>r. report_row fromisoformat cutoff activity u = Inr r" by simp
  then obtain rows where "map (report_row fromisoformat cutoff activity) ?users = map Inr rows"
    using rows_exist by blast
  then have "\<exists>f. write_rows (report_row fromisoformat cutoff activity) ?users
                (out @ [[Str (''Repository: '' @ repo_name)],
                [Str ''Username'', Str ''Commits'', Str ''Issues'', Str ''PRs'',
                 Str ''Last Activity'', Str ''Status'']]) = (None, f)"
    unfolding write_rows_None by blast
  then show "\<exists>out'. write_repo fromisoformat cutoff all_users (repo_name, activity) out
                       = (None, out')"
    by (auto simp: write_repo_def)
qed


theorem report_rows_follow_roster_witness:
  "write_repo documented_fromisoformat \<lparr>dt_fields = 63839664000000000, dt_utcoffset = Some 0\<rparr>
     {''carol'', ''alice'', ''bob''}
     (''api'',
      [(''alice'', \<lparr>commits = 3, issues = 0, prs = 0, last_commit = Some ''2024-02-20T12:00:00Z'',
                    last_issue = None, last_pr = None\<rparr>),
       (''mallory'', \<lparr>commits = 7, issues = 0, prs = 0, last_commit = Some ''2024-02-20T12:00:00Z'',
                      last_issue = None, last_pr = None\<rparr>),
       (''bob'', \<lparr>commits = 0, issues = 1, prs = 0, last_commit = None,
                  last_issue = Some ''2023-11-05T08:30:00Z'', last_pr = None\<rparr>)]) []
   = (None,
      [[Str ''Repository: api''],
       [Str ''Username'', Str ''Commits'', Str ''Issues'', Str ''PRs'', Str ''Last Activity'',
        Str ''Status''],
       [Str ''alice'', Num 3, Num 0, Num 0, Str ''2024-02-20T12:00:00Z'', Str ''Active''],
       [Str ''bob'', Num 0, Num 1, Num 0, Str ''2023-11-05T08:30:00Z'', Str ''Inactive''],
       [Str ''carol'', Num 0, Num 0, Num 0, Str ''N/A'', Str ''Inactive''],
       []])"
proof -
  let ?cutoff = "\<lparr>dt_fields = 63839664000000000, dt_utcoffset = Some 0\<rparr>"
  let ?activity = "[(''alice'', \<lparr>commits = 3, issues = 0, prs = 0, last_commit = Some ''2024-02-20T12:00:00Z'',
                    last_issue = None, last_pr = None\<rparr>),
       (''mallory'', \<lparr>commits = 7, issues = 0, prs = 0, last_commit = Some ''2024-02-20T12:00:00Z'',
                      last_issue = None, last_pr = None\<rparr>),
       (''bob'', \<lparr>commits = 0, issues = 1, prs = 0, last_commit = None,
                  last_issue = Some ''2023-11-05T08:30:00Z'', last_pr = None\<rparr>)]"
  let ?row = "report_row documented_fromisoformat ?cutoff ?activity"
  note ca = classify_iso[OF valid_civil_more(1) documented_reads_utc[OF valid_civil_more(1)],
      unfolded iso_more civil_us_more, of 63839664000000000]
  note cb = classify_iso[OF valid_civil_more(2) documented_reads_utc[OF valid_civil_more(2)],
      unfolded iso_more civil_us_more, of 63839664000000000]
  have alice: "?row ''alice''
      = Inr [Str ''alice'', Num 3, Num 0, Num 0, Str ''2024-02-20T12:00:00Z'', Str ''Active'']"
    unfolding report_row_def Let_def using ca by simp
  have bob: "?row ''bob''
      = Inr [Str ''bob'', Num 0, Num 1, Num 0, Str ''2023-11-05T08:30:00Z'', Str ''Inactive'']"
    unfolding report_row_def Let_def using cb by simp
  have fin: "finite {''carol'', ''alice'', ''bob''}" by simp
  note t = report_rows_follow_roster[OF fin, of documented_fromisoformat ?cutoff "''api''"
      ?activity "[]" _ "''carol''"]
  have carol: "?row ''carol''
      = Inr [Str ''carol'', Num 0, Num 0, Num 0, Str ''N/A'', Str ''Inactive'']"
    using t by simp
  have "\<forall>u\<in>{''carol'', ''alice'', ''bob''}. \<exists>r. ?row u = Inr r"
    using alice bob carol by simp
  with t obtain out' where
    w: "write_repo documented_fromisoformat ?cutoff {''carol'', ''alice'', ''bob''}
          (''api'', ?activity) [] = (None, out')"
    by blast
  from report_rows_follow_roster[OF fin, of documented_fromisoformat ?cutoff "''api''"
      ?activity "[]" out' "''carol''"] w
  obtain rows where
    o: "out' = [] @ [[Str (''Repository: '' @ ''api'')],
                     [Str ''Username'', Str ''Commits'', Str ''Issues'', Str ''PRs'',
                      Str ''Last Activity'', Str ''Status'']] @ rows @ [[]]"
    and m: "map Inr rows = map ?row (sorted_list_of_set {''carol'', ''alice'', ''bob''})"
    by blast
  from m have "map Inr rows = [?row ''alice'', ?row ''bob'', ?row ''carol'']"
    by (simp only: roster_example list.map)
  then have "rows = [[Str ''alice'', Num 3, Num 0, Num 0, Str ''2024-02-20T12:00:00Z'', Str ''Active''],
       [Str ''bob'', Num 0, Num 1, Num 0, Str ''2023-11-05T08:30:00Z'', Str ''Inactive''],
       [Str ''carol'', Num 0, Num 0, Num 0, Str ''N/A'', Str ''Inactive'']]"
    unfolding alice bob carol by auto
  with o w show ?thesis by simp
qed

lemma save_to_csv_one:
  "cutoff_of now threshold_days = Inr cutoff \<Longrightarrow>
   save_to_csv fromisoformat now threshold_days [repo] all_users
     = write_repo fromisoformat cutoff all_users repo []"
  by (simp add: save_to_csv_def split: prod.splits option.splits)

end
